theory Spec2Isabelle
  imports Complex_Main
begin

section \<open>Tensors, faults and checked indexing\<close>

text \<open>
  The notebook \<^verbatim>\<open>01_hnet.ipynb\<close> computes on PyTorch tensors. A tensor of shape
  \<open>(B, L, D)\<close> is modelled as a nested list (batch, then position, then feature), a
  tensor of shape \<open>(B, L)\<close> as a list of rows. Numbers are real numbers: the rounding of
  the float32 arithmetic is not part of the model, and no theorem bounds a computed value
  where rounding could break the bound. A PyTorch tensor is rectangular; the
  predicates \<open>shape2\<close> and \<open>shape3\<close> say so of a nested list. A nested list does not
  record the trailing dimensions of a tensor whose leading dimension is empty.

  Every exception the code can raise is a value of \<open>py_error\<close>; a computation returns
  \<open>Inl\<close> of the fault or \<open>Inr\<close> of its value.
\<close>

datatype py_error =
    IndexError nat nat nat  \<comment> \<open>index, dimension, size: index out of bounds for dimension with size\<close>
  | MaskIndexError          \<comment> \<open>IndexError: the shape of a boolean mask does not match the indexed tensor\<close>
  | NameError string        \<comment> \<open>name is not defined\<close>
  | ValueError              \<comment> \<open>\<^verbatim>\<open>max()\<close> of an empty sequence\<close>
  | RuntimeError            \<comment> \<open>tensor sizes do not match\<close>

type_synonym 'a result = "py_error + 'a"
type_synonym vec = "real list"
type_synonym mat = "real list list"
type_synonym tensor3 = "real list list list"

definition shape2 :: "nat \<Rightarrow> nat \<Rightarrow> 'a list list \<Rightarrow> bool" where
  "shape2 B L m = (length m = B \<and> list_all (\<lambda>r. length r = L) m)"

definition shape3 :: "nat \<Rightarrow> nat \<Rightarrow> nat \<Rightarrow> 'a list list list \<Rightarrow> bool" where
  "shape3 B L D x = (length x = B \<and> list_all (shape2 L D) x)"

text \<open>Sequencing of fallible steps: the first fault ends the computation.\<close>

definition and_then :: "'a result \<Rightarrow> ('a \<Rightarrow> 'b result) \<Rightarrow> 'b result" where
  "and_then m f = (case m of Inl e \<Rightarrow> Inl e | Inr v \<Rightarrow> f v)"

text \<open>\<open>xs[i]\<close> along dimension \<open>d\<close>, with the bounds check PyTorch makes.\<close>

definition getitem :: "nat \<Rightarrow> 'a list \<Rightarrow> nat \<Rightarrow> 'a result" where
  "getitem d xs i = (if i < length xs then Inr (xs ! i) else Inl (IndexError i d (length xs)))"

text \<open>\<open>m[i, t]\<close>: the index of dimension 0 is checked first.\<close>

definition getitem2 :: "'a list list \<Rightarrow> nat \<Rightarrow> nat \<Rightarrow> 'a result" where
  "getitem2 m i t = and_then (getitem 0 m i) (\<lambda>row. getitem 1 row t)"

text \<open>
  A \<^verbatim>\<open>for\<close> loop that appends one result per iteration, or fills one slice of a
  preallocated tensor per iteration: the results in order, or the first fault.
\<close>

fun for_each :: "('a \<Rightarrow> 'b result) \<Rightarrow> 'a list \<Rightarrow> 'b list result" where
  "for_each f [] = Inr []"
| "for_each f (x # xs) =
     (case f x of Inl e \<Rightarrow> Inl e
      | Inr y \<Rightarrow> (case for_each f xs of Inl e \<Rightarrow> Inl e | Inr ys \<Rightarrow> Inr (y # ys)))"

section \<open>Upsampler\<close>

text \<open>
  \<^verbatim>\<open>
  def upsample(bar_z, b, p, original_L, D):
      z = torch.zeros(bar_z.shape[0], original_L, D, device=bar_z.device)
      for i in range(bar_z.shape[0]):
          chunk_idx = 0
          for t in range(original_L):
              z[i, t] = bar_z[i, chunk_idx]
              if b[i, t] == 1 and t < original_L - 1:
                  chunk_idx += 1
      c = p.clone()
      c[b == 1] = p[b == 1]
      c[b == 0] = 1 - p[b == 0]
      return z
  \<close>
\<close>

text \<open>
  The assignment \<open>z[i, t] = row\<close> into a slice of \<open>D\<close> features: a row of \<open>D\<close>
  features is copied, a row of one feature is broadcast, any other size is refused.
\<close>

definition assign_row :: "nat \<Rightarrow> vec \<Rightarrow> vec result" where
  "assign_row D row =
     (if length row = D then Inr row
      else if length row = 1 then Inr (replicate D (hd row))
      else Inl RuntimeError)"

text \<open>
  The inner loop of \<open>upsample\<close> for batch element \<open>i\<close>, from position \<open>t\<close> with the
  current \<open>chunk_idx\<close>: the rows \<open>z[i, t], z[i, t+1], ...\<close>.
\<close>

function upsample_loop :: "vec list \<Rightarrow> mat \<Rightarrow> nat \<Rightarrow> nat \<Rightarrow> nat \<Rightarrow> nat \<Rightarrow> nat \<Rightarrow> vec list result" where
  "upsample_loop bar_z_i b i original_L D t chunk_idx =
     (if t < original_L then
        and_then (getitem 1 bar_z_i chunk_idx) (\<lambda>row.
        and_then (assign_row D row) (\<lambda>z_t.
        and_then (getitem2 b i t) (\<lambda>b_t.
        and_then (upsample_loop bar_z_i b i original_L D (t + 1)
                    (if b_t = 1 \<and> t < original_L - 1 then chunk_idx + 1 else chunk_idx)) (\<lambda>rest.
        Inr (z_t # rest)))))
      else Inr [])"
  by pat_completeness auto
termination
  by (relation "measure (\<lambda>(bar_z_i, b, i, original_L, D, t, chunk_idx). original_L - t)") auto

declare upsample_loop.simps [simp del]

text \<open>The confidence \<open>c\<close> of one position, as the two masked assignments leave it.\<close>

definition confidence_elem :: "real \<Rightarrow> real \<Rightarrow> real" where
  "confidence_elem b_t p_t = (if b_t = 1 then p_t else if b_t = 0 then 1 - p_t else p_t)"

text \<open>The tensor \<open>c\<close>; a mask \<open>b == 1\<close> whose shape is not that of \<open>p\<close> is refused.\<close>

definition confidence :: "mat \<Rightarrow> mat \<Rightarrow> mat result" where
  "confidence b p =
     (if map length b = map length p then Inr (map2 (map2 confidence_elem) b p)
      else Inl MaskIndexError)"

text \<open>\<open>upsample\<close>: the expansion loop, then \<open>c\<close>, which is computed and not used.\<close>

definition upsample :: "tensor3 \<Rightarrow> mat \<Rightarrow> mat \<Rightarrow> nat \<Rightarrow> nat \<Rightarrow> tensor3 result" where
  "upsample bar_z b p original_L D =
     and_then (for_each (\<lambda>i. upsample_loop (bar_z ! i) b i original_L D 0 0) [0..<length bar_z]) (\<lambda>z.
     and_then (confidence b p) (\<lambda>c.
     Inr z))"

text \<open>
  The values \<open>chunk_idx\<close> takes at the positions of one batch element, from its
  indicators: the cursor starts at \<open>c\<close> and moves on after every position whose
  indicator is 1. (The test \<open>t < original_L - 1\<close> of the loop only spares the
  increment after the last position, which no read follows.)
\<close>

fun cursor_from :: "real list \<Rightarrow> nat \<Rightarrow> nat list" where
  "cursor_from [] c = []"
| "cursor_from (x # xs) c = c # cursor_from xs (if x = 1 then c + 1 else c)"

section \<open>Downsampler\<close>

text \<open>
  \<^verbatim>\<open>
  def downsample(x_hat, b, p):
      mask = b.bool()
      x_next = []
      P_next = []
      for i in range(x_hat.shape[0]):
          idx = mask[i].nonzero(as_tuple=False).squeeze(-1)
          x_next.append(x_hat[i, idx, :])
          P_next.append(p[i, idx])
      max_len = max(len(x) for x in x_next)
      x_next_padded = torch.stack([F.pad(x, (0, 0, 0, max_len - len(x))) for x in x_next])
      P_next_padded = torch.stack([F.pad(P, (0, max_len - len(P))) for P in P_next])
      return x_next_padded, P_next_padded
  \<close>
\<close>

text \<open>\<open>shape[1]\<close> and \<open>shape[2]\<close> of a tensor, read off the first row.\<close>

definition size1 :: "'a list list \<Rightarrow> nat" where
  "size1 x = (case x of [] \<Rightarrow> 0 | r # _ \<Rightarrow> length r)"

definition size2 :: "'a list list list \<Rightarrow> nat" where
  "size2 x = (case x of [] \<Rightarrow> 0 | r # _ \<Rightarrow> size1 r)"

text \<open>\<open>b.bool()[i].nonzero()\<close>: the positions whose indicator is not zero, ascending.\<close>

definition nonzero :: "real list \<Rightarrow> nat list" where
  "nonzero mask_i = filter (\<lambda>t. mask_i ! t \<noteq> 0) [0..<length mask_i]"

text \<open>One iteration of the loop: the pair appended to \<open>x_next\<close> and \<open>P_next\<close>.\<close>

definition select_chunks :: "tensor3 \<Rightarrow> mat \<Rightarrow> mat \<Rightarrow> nat \<Rightarrow> (vec list \<times> real list) result" where
  "select_chunks x_hat b p i =
     and_then (getitem 0 b i) (\<lambda>mask_i.
     and_then (for_each (getitem 1 (x_hat ! i)) (nonzero mask_i)) (\<lambda>x.
     and_then (getitem 0 p i) (\<lambda>p_i.
     and_then (for_each (getitem 1 p_i) (nonzero mask_i)) (\<lambda>P.
     Inr (x, P)))))"

text \<open>Python's \<open>max\<close> of a sequence of lengths.\<close>

definition max_len_of :: "nat list \<Rightarrow> nat result" where
  "max_len_of ns = (case ns of [] \<Rightarrow> Inl ValueError | n # ns' \<Rightarrow> Inr (fold max ns' n))"

text \<open>\<open>F.pad\<close> at the end of the chunk axis, with zero rows and zero probabilities.\<close>

definition pad_rows :: "nat \<Rightarrow> nat \<Rightarrow> vec list \<Rightarrow> vec list" where
  "pad_rows D max_len x = x @ replicate (max_len - length x) (replicate D 0)"

definition pad_vals :: "nat \<Rightarrow> real list \<Rightarrow> real list" where
  "pad_vals max_len P = P @ replicate (max_len - length P) 0"

definition downsample :: "tensor3 \<Rightarrow> mat \<Rightarrow> mat \<Rightarrow> (tensor3 \<times> mat) result" where
  "downsample x_hat b p =
     and_then (for_each (select_chunks x_hat b p) [0..<length x_hat]) (\<lambda>sel.
     and_then (max_len_of (map (\<lambda>(x, P). length x) sel)) (\<lambda>max_len.
     Inr (map (\<lambda>(x, P). pad_rows (size2 x_hat) max_len x) sel,
          map (\<lambda>(x, P). pad_vals max_len P) sel)))"

section \<open>Smoother\<close>

text \<open>
  \<^verbatim>\<open>
  def smoothing_module(z_hat, P):
      bar_z = torch.zeros_like(z_hat)
      for b in range(z_hat.shape[0]):
          bar_z[b, 0] = z_hat[b, 0]
          for t in range(1, z_hat.shape[1]):
              bar_z[b, t] = P[b, t] * z_hat[b, t] + (1 - P[b, t]) * bar_z[b, t-1]
      return bar_z
  \<close>
\<close>

definition smul :: "real \<Rightarrow> vec \<Rightarrow> vec" where
  "smul a v = map (\<lambda>x. a * x) v"

definition vadd :: "vec \<Rightarrow> vec \<Rightarrow> vec" where
  "vadd u v = map2 (+) u v"

text \<open>
  The inner loop for batch element \<open>b\<close>, from index \<open>t\<close>, where \<open>prev\<close> is the
  row \<open>bar_z[b, t-1]\<close> the iteration before has written.
\<close>

function smoothing_loop :: "vec list \<Rightarrow> mat \<Rightarrow> nat \<Rightarrow> nat \<Rightarrow> vec \<Rightarrow> vec list result" where
  "smoothing_loop z_hat_b P b t prev =
     (if t < length z_hat_b then
        and_then (getitem2 P b t) (\<lambda>P_bt.
        and_then (Inr (vadd (smul P_bt (z_hat_b ! t)) (smul (1 - P_bt) prev))) (\<lambda>bar_z_bt.
        and_then (smoothing_loop z_hat_b P b (t + 1) bar_z_bt) (\<lambda>rest.
        Inr (bar_z_bt # rest))))
      else Inr [])"
  by pat_completeness auto
termination
  by (relation "measure (\<lambda>(z_hat_b, P, b, t, prev). length z_hat_b - t)") auto

declare smoothing_loop.simps [simp del]

definition smoothing_module :: "tensor3 \<Rightarrow> mat \<Rightarrow> tensor3 result" where
  "smoothing_module z_hat P =
     for_each (\<lambda>b.
       and_then (getitem 1 (z_hat ! b) 0) (\<lambda>bar_z_b0.
       and_then (smoothing_loop (z_hat ! b) P b 1 bar_z_b0) (\<lambda>rest.
       Inr (bar_z_b0 # rest))))
     [0..<length z_hat]"

text \<open>The row the recurrence writes at index \<open>t\<close>, given the row before it.\<close>

definition ema_step :: "mat \<Rightarrow> vec list \<Rightarrow> nat \<Rightarrow> nat \<Rightarrow> vec \<Rightarrow> vec" where
  "ema_step P z_hat_b b t prev = vadd (smul (P ! b ! t) (z_hat_b ! t)) (smul (1 - P ! b ! t) prev)"

section \<open>Router\<close>

text \<open>
  \<^verbatim>\<open>
  class SimilarityRouter(nn.Module):
      def __init__(self, dim):
          self.W_q = nn.Linear(dim, dim, bias=False)
          self.W_k = nn.Linear(dim, dim, bias=False)

      def forward(self, x_hat):
          q = self.W_q(x_hat)
          k = self.W_k(x_hat)
          k_shifted = torch.cat([k[:, :1, :], k[:, :-1, :]], dim=1)
          dot = torch.sum(q * k_shifted, dim=-1)
          norm_q = torch.norm(q, dim=-1) + 1e-8
          norm_k = torch.norm(k_shifted, dim=-1) + 1e-8
          cos_sim = dot / (norm_q * norm_k)
          p = 0.5 * (1 - cos_sim)
          p[:, 0] = 1.0
          b = (p >= 0.5).float()
          return p, b
  \<close>
\<close>

text \<open>
  A layer \<open>nn.Linear\<close>: the weight has one row per output feature; a layer made with
  \<open>bias=False\<close> has no bias.
\<close>

record Linear =
  in_features :: nat
  out_features :: nat
  weight :: mat
  bias :: "vec option"

definition wf_Linear :: "nat \<Rightarrow> Linear \<Rightarrow> bool" where
  "wf_Linear dim' lin =
     (in_features lin = dim' \<and> out_features lin = dim' \<and> shape2 dim' dim' (weight lin)
      \<and> (case bias lin of None \<Rightarrow> True | Some c \<Rightarrow> length c = dim'))"

definition dot_vec :: "vec \<Rightarrow> vec \<Rightarrow> real" where
  "dot_vec u v = sum_list (map2 (*) u v)"

text \<open>The layer on one feature vector; a vector of another size is refused.\<close>

definition linear_vec :: "Linear \<Rightarrow> vec \<Rightarrow> vec result" where
  "linear_vec lin v =
     (if length v = in_features lin then
        Inr (case bias lin of
               None \<Rightarrow> map (\<lambda>w. dot_vec w v) (weight lin)
             | Some c \<Rightarrow> map2 (\<lambda>w c_j. dot_vec w v + c_j) (weight lin) c)
      else Inl RuntimeError)"

text \<open>
  The layer on a tensor \<open>(B, L, D)\<close>: on every feature vector. A tensor with an empty
  sequence holds no feature vector, so nothing is refused there; where a theorem is about
  such an input, its shape hypothesis says that the feature dimension is that of the layer.
\<close>

definition linear :: "Linear \<Rightarrow> tensor3 \<Rightarrow> tensor3 result" where
  "linear lin x = for_each (for_each (linear_vec lin)) x"

record SimilarityRouter =
  W_q :: Linear
  W_k :: Linear

definition eps :: real where
  "eps = 1 / 100000000"

text \<open>\<open>torch.norm(v, dim=-1)\<close>: the Euclidean norm.\<close>

definition norm_vec :: "vec \<Rightarrow> real" where
  "norm_vec v = sqrt (sum_list (map (\<lambda>x. x * x) v))"

text \<open>\<open>torch.cat([k[:, :1, :], k[:, :-1, :]], dim=1)\<close> for one batch element.\<close>

definition shift_k :: "vec list \<Rightarrow> vec list" where
  "shift_k k_i = take 1 k_i @ butlast k_i"

text \<open>
  The value of \<open>p\<close> at one position, before \<open>p[:, 0]\<close> is overwritten, as the
  exact quotient; the float32 code rounds it, and can leave \<open>[0, 1]\<close> by a rounding
  error.
\<close>

definition boundary_prob :: "vec \<Rightarrow> vec \<Rightarrow> real" where
  "boundary_prob q_t k_t =
     (let dot = dot_vec q_t k_t;
          norm_q = norm_vec q_t + eps;
          norm_k = norm_vec k_t + eps;
          cos_sim = dot / (norm_q * norm_k)
      in 0.5 * (1 - cos_sim))"

text \<open>\<open>p[:, 0] = 1.0\<close> on one row; a row without a position 0 is an index fault.\<close>

definition force_first :: "real list \<Rightarrow> real list result" where
  "force_first p_i = (case p_i of [] \<Rightarrow> Inl (IndexError 0 1 0) | _ # rest \<Rightarrow> Inr (1 # rest))"

definition router_forward :: "SimilarityRouter \<Rightarrow> tensor3 \<Rightarrow> (mat \<times> mat) result" where
  "router_forward r x_hat =
     and_then (linear (W_q r) x_hat) (\<lambda>q.
     and_then (linear (W_k r) x_hat) (\<lambda>k.
     and_then (Inr (map shift_k k)) (\<lambda>k_shifted.
     and_then (for_each force_first (map2 (map2 boundary_prob) q k_shifted)) (\<lambda>p.
     Inr (p, map (map (\<lambda>p_t. if 0.5 \<le> p_t then 1 else 0)) p)))))"

section \<open>The network\<close>

text \<open>
  \<^verbatim>\<open>
  class HNet(nn.Module):
      def __init__(self, dim, num_stages=1):
          self.num_stages = num_stages
          self.router = SimilarityRouter(dim)
          self.encoder = nn.Linear(dim, dim)
          self.main = nn.Linear(dim, dim)
          self.decoder = nn.Linear(dim, dim)
          self.linear_skip = nn.Linear(dim, dim)

      def forward(self, x0):
          xs = [x0]
          ps = []
          for s in range(self.num_stages):
              x_hat = self.encoder(xs[-1])
              p, b = self.router(x_hat)
              x_next, P_next = downsample(x_hat, b, p)
              xs.append(x_next)
              ps.append((p, b, P_next))
          z_hat_S = self.main(xs[-1])
          zs = [z_hat_S]
          for s in reversed(range(self.num_stages)):
              bar_z = ema_smooth(zs[-1], ps[s][2])
              z_s = upsample(bar_z, ps[s][1], ps[s][0], xs[s].shape[1], xs[s].shape[2])
              z_s += self.linear_skip(self.encoder(xs[s]))
              z_hat_s = self.decoder(z_s)
              zs.append(z_hat_s)
          return zs[-1]
  \<close>
\<close>

record HNet =
  num_stages :: nat
  router :: SimilarityRouter
  encoder :: Linear
  main :: Linear
  decoder :: Linear
  linear_skip :: Linear

definition wf_HNet :: "nat \<Rightarrow> HNet \<Rightarrow> bool" where
  "wf_HNet dim' h =
     (wf_Linear dim' (W_q (router h)) \<and> bias (W_q (router h)) = None
      \<and> wf_Linear dim' (W_k (router h)) \<and> bias (W_k (router h)) = None
      \<and> wf_Linear dim' (encoder h) \<and> wf_Linear dim' (main h)
      \<and> wf_Linear dim' (decoder h) \<and> wf_Linear dim' (linear_skip h))"

text \<open>
  No cell of the notebook binds the name \<open>ema_smooth\<close> (the smoother it defines is
  \<open>smoothing_module\<close>), so evaluating the name raises \<open>NameError\<close>, before the
  arguments of the call are looked at.
\<close>

definition ema_smooth :: "tensor3 \<Rightarrow> mat \<Rightarrow> tensor3 result" where
  "ema_smooth z_hat P = Inl (NameError ''ema_smooth'')"

text \<open>\<open>z_s += skip\<close>: elementwise, on tensors of one shape.\<close>

definition tensor_add :: "tensor3 \<Rightarrow> tensor3 \<Rightarrow> tensor3 result" where
  "tensor_add z skip =
     (if map (map length) z = map (map length) skip then Inr (map2 (map2 vadd) z skip)
      else Inl RuntimeError)"

text \<open>The compression loop, with \<open>n\<close> iterations to go.\<close>

fun compress :: "HNet \<Rightarrow> nat \<Rightarrow> tensor3 list \<Rightarrow> (mat \<times> mat \<times> mat) list
    \<Rightarrow> (tensor3 list \<times> (mat \<times> mat \<times> mat) list) result" where
  "compress h 0 xs ps = Inr (xs, ps)"
| "compress h (Suc n) xs ps =
     and_then (linear (encoder h) (last xs)) (\<lambda>x_hat.
     and_then (router_forward (router h) x_hat) (\<lambda>(p, b).
     and_then (downsample x_hat b p) (\<lambda>(x_next, P_next).
     compress h n (xs @ [x_next]) (ps @ [(p, b, P_next)]))))"

text \<open>The decompression loop over the stages \<open>s\<close> that are left, deepest first.\<close>

fun decompress :: "HNet \<Rightarrow> nat list \<Rightarrow> tensor3 list \<Rightarrow> (mat \<times> mat \<times> mat) list
    \<Rightarrow> tensor3 list \<Rightarrow> tensor3 list result" where
  "decompress h [] xs ps zs = Inr zs"
| "decompress h (s # ss) xs ps zs =
     and_then (ema_smooth (last zs) (snd (snd (ps ! s)))) (\<lambda>bar_z.
     and_then (upsample bar_z (fst (snd (ps ! s))) (fst (ps ! s))
                 (size1 (xs ! s)) (size2 (xs ! s))) (\<lambda>z_s.
     and_then (linear (encoder h) (xs ! s)) (\<lambda>e.
     and_then (linear (linear_skip h) e) (\<lambda>skip.
     and_then (tensor_add z_s skip) (\<lambda>z_s'.
     and_then (linear (decoder h) z_s') (\<lambda>z_hat_s.
     decompress h ss xs ps (zs @ [z_hat_s])))))))"

definition forward :: "HNet \<Rightarrow> tensor3 \<Rightarrow> tensor3 result" where
  "forward h x0 =
     and_then (compress h (num_stages h) [x0] []) (\<lambda>(xs, ps).
     and_then (linear (main h) (last xs)) (\<lambda>z_hat_S.
     and_then (decompress h (rev [0..<num_stages h]) xs ps [z_hat_S]) (\<lambda>zs.
     Inr (last zs))))"

section \<open>Instances for evaluation\<close>

text \<open>
  A router and a network of feature dimension 1 whose layers are the identity (weight 1,
  and bias 0 where the layer has one), with one stage.
\<close>

definition router_1 :: SimilarityRouter where
  "router_1 = \<lparr>W_q = \<lparr>in_features = 1, out_features = 1, weight = [[1]], bias = None\<rparr>,
         W_k = \<lparr>in_features = 1, out_features = 1, weight = [[1]], bias = None\<rparr>\<rparr>"

definition hnet_1 :: HNet where
  "hnet_1 = \<lparr>num_stages = 1, router = router_1,
      encoder = \<lparr>in_features = 1, out_features = 1, weight = [[1]], bias = Some [0]\<rparr>,
      main = \<lparr>in_features = 1, out_features = 1, weight = [[1]], bias = Some [0]\<rparr>,
      decoder = \<lparr>in_features = 1, out_features = 1, weight = [[1]], bias = Some [0]\<rparr>,
      linear_skip = \<lparr>in_features = 1, out_features = 1, weight = [[1]], bias = Some [0]\<rparr>\<rparr>"

section \<open>Auxiliary lemmas\<close>

subsection \<open>Loops and shapes\<close>

lemma for_each_Inr:
  "(\<And>x. x \<in> set xs \<Longrightarrow> f x = Inr (g x)) \<Longrightarrow> for_each f xs = Inr (map g xs)"
  by (induction xs) auto

lemma for_each_Inl:
  "(\<And>x. x \<in> set xs \<Longrightarrow> f x = Inl e \<or> (\<exists>y. f x = Inr y)) \<Longrightarrow> \<exists>x\<in>set xs. f x = Inl e
    \<Longrightarrow> for_each f xs = Inl e"
proof (induction xs)
  case Nil then show ?case by simp
next
  case (Cons a xs)
  show ?case
  proof (cases "f a")
    case (Inl e')
    then have "e' = e" using Cons.prems(1)[of a] by auto
    then show ?thesis using Inl by simp
  next
    case (Inr y)
    then have "\<exists>x\<in>set xs. f x = Inl e" using Cons.prems(2) by auto
    then have "for_each f xs = Inl e" using Cons.IH Cons.prems(1) by auto
    then show ?thesis using Inr by simp
  qed
qed

lemma for_each_InrD:
  "for_each f xs = Inr ys \<Longrightarrow> length ys = length xs \<and> (\<forall>j<length xs. f (xs ! j) = Inr (ys ! j))"
proof (induction xs arbitrary: ys)
  case Nil then show ?case by simp
next
  case (Cons x xs)
  then show ?case by (auto split: sum.splits simp: nth_Cons split: nat.splits)
qed

lemma for_each_total:
  "(\<And>x. x \<in> set xs \<Longrightarrow> \<exists>y. f x = Inr y) \<Longrightarrow> \<exists>ys. for_each f xs = Inr ys"
proof (induction xs)
  case Nil then show ?case by simp
next
  case (Cons a xs)
  obtain y where "f a = Inr y" using Cons.prems[of a] by auto
  moreover obtain ys where "for_each f xs = Inr ys" using Cons.IH Cons.prems by auto
  ultimately show ?case by simp
qed

lemma for_each_Inr_ex:
  "(\<And>x. x \<in> set xs \<Longrightarrow> \<exists>y. f x = Inr y \<and> Q y)
    \<Longrightarrow> \<exists>ys. for_each f xs = Inr ys \<and> length ys = length xs \<and> list_all Q ys"
proof (induction xs)
  case Nil then show ?case by simp
next
  case (Cons a xs)
  obtain y where "f a = Inr y" "Q y" using Cons.prems[of a] by auto
  moreover obtain ys where "for_each f xs = Inr ys" "length ys = length xs" "list_all Q ys"
    using Cons.IH Cons.prems by auto
  ultimately show ?case by simp
qed

lemma for_each_getitem:
  "(\<And>j. j \<in> set idx \<Longrightarrow> j < length xs) \<Longrightarrow> for_each (getitem d xs) idx = Inr (map (nth xs) idx)"
  by (rule for_each_Inr) (simp add: getitem_def)

lemma shape2_nth: "shape2 B L m \<Longrightarrow> i < B \<Longrightarrow> length (m ! i) = L"
  by (auto simp: shape2_def list_all_length)

lemma shape3_nth: "shape3 B L D x \<Longrightarrow> i < B \<Longrightarrow> length (x ! i) = L \<and> list_all (\<lambda>r. length r = D) (x ! i)"
  by (auto simp: shape3_def shape2_def list_all_length)

lemma shape3_length: "shape3 B L D x \<Longrightarrow> length x = B"
  by (simp add: shape3_def)

lemma size2_shape3: "shape3 B L D x \<Longrightarrow> 0 < B \<Longrightarrow> 0 < L \<Longrightarrow> size2 x = D \<and> size1 x = L"
  by (cases x; cases "hd x") (auto simp: shape3_def shape2_def size2_def size1_def)

subsection \<open>Upsampler\<close>

lemma length_cursor_from [simp]: "length (cursor_from bs c) = length bs"
  by (induction bs arbitrary: c) auto

lemma cursor_from_nth:
  "t < length bs \<Longrightarrow> cursor_from bs c ! t = c + length (filter (\<lambda>v. v = 1) (take t bs))"
proof (induction bs arbitrary: c t)
  case Nil then show ?case by simp
next
  case (Cons x xs)
  then show ?case by (cases t) auto
qed

lemma upsample_loop_char:
  assumes "list_all (\<lambda>r. length r = D) bz" "i < length b" "length (b ! i) = L"
    "c \<le> length bz" "t \<le> L"
  shows "upsample_loop bz b i L D t c =
     (if list_all (\<lambda>k. k < length bz) (cursor_from (drop t (b ! i)) c)
      then Inr (map (nth bz) (cursor_from (drop t (b ! i)) c))
      else Inl (IndexError (length bz) 1 (length bz)))"
  using assms(4,5)
proof (induction "L - t" arbitrary: t c)
  case 0
  then show ?case using assms(3) by (simp add: upsample_loop.simps)
next
  case (Suc n)
  then have tL: "t < L" by simp
  have dr: "drop t (b ! i) = (b ! i ! t) # drop (Suc t) (b ! i)"
    using tL assms(3) by (simp add: Cons_nth_drop_Suc)
  show ?case
  proof (cases "c < length bz")
    case False
    then have "c = length bz" using Suc.prems by simp
    then show ?thesis using tL dr
      by (subst upsample_loop.simps) (simp add: and_then_def getitem_def)
  next
    case True
    let ?c' = "if b ! i ! t = 1 \<and> t < L - 1 then c + 1 else c"
    have row: "length (bz ! c) = D" using assms(1) True by (simp add: list_all_length)
    have IH: "upsample_loop bz b i L D (Suc t) ?c' =
     (if list_all (\<lambda>k. k < length bz) (cursor_from (drop (Suc t) (b ! i)) ?c')
      then Inr (map (nth bz) (cursor_from (drop (Suc t) (b ! i)) ?c'))
      else Inl (IndexError (length bz) 1 (length bz)))"
      using Suc.hyps(1)[of "Suc t" ?c'] Suc.hyps(2) True tL by auto
    have step: "upsample_loop bz b i L D t c =
        and_then (upsample_loop bz b i L D (Suc t) ?c') (\<lambda>rest. Inr (bz ! c # rest))"
      using True tL row assms(2,3)
      by (subst upsample_loop.simps) (simp add: and_then_def getitem_def getitem2_def assign_row_def)
    show ?thesis
    proof (cases "t < L - 1")
      case True
      show ?thesis
        unfolding step IH dr using True \<open>c < length bz\<close> by (simp add: and_then_def)
    next
      case False
      then have "drop (Suc t) (b ! i) = []" using assms(3) by simp
      then show ?thesis
        unfolding step IH dr using False \<open>c < length bz\<close> by (simp add: and_then_def)
    qed
  qed
qed

lemma upsample_row_char:
  assumes "shape3 B L' D bar_z" "shape2 B L b" "i < B"
  shows "upsample_loop (bar_z ! i) b i L D 0 0 =
     (if list_all (\<lambda>k. k < L') (cursor_from (b ! i) 0)
      then Inr (map (nth (bar_z ! i)) (cursor_from (b ! i) 0))
      else Inl (IndexError L' 1 L'))"
  using upsample_loop_char[of D "bar_z ! i" i b L 0 0] shape3_nth[OF assms(1,3)] shape2_nth[OF assms(2,3)]
    assms(2,3)
  by (simp add: shape2_def)

lemma upsample_cursor_overrun:
  assumes "shape3 B L' D bar_z" "shape2 B L b" "i < B" "t < L"
    and "L' \<le> length (filter (\<lambda>v. v = 1) (take t (b ! i)))"
  shows "upsample bar_z b p L D = Inl (IndexError L' 1 L')"
proof -
  let ?f = "\<lambda>i. upsample_loop (bar_z ! i) b i L D 0 0"
  have len: "length (b ! i) = L" using shape2_nth[OF assms(2,3)] .
  have "cursor_from (b ! i) 0 ! t = length (filter (\<lambda>v. v = 1) (take t (b ! i)))"
    using cursor_from_nth[of t "b ! i" 0] assms(4) len by simp
  then have "\<not> list_all (\<lambda>k. k < L') (cursor_from (b ! i) 0)"
    using assms(4,5) len by (auto simp: list_all_length)
  then have bad: "?f i = Inl (IndexError L' 1 L')"
    using upsample_row_char[OF assms(1,2,3)] by simp
  have B: "length bar_z = B" using assms(1) by (simp add: shape3_def)
  have "for_each ?f [0..<length bar_z] = Inl (IndexError L' 1 L')"
  proof (rule for_each_Inl)
    fix j assume "j \<in> set [0..<length bar_z]"
    then have "j < B" using B by simp
    then show "?f j = Inl (IndexError L' 1 L') \<or> (\<exists>y. ?f j = Inr y)"
      using upsample_row_char[OF assms(1,2)] by simp
  next
    show "\<exists>x\<in>set [0..<length bar_z]. ?f x = Inl (IndexError L' 1 L')"
      using bad assms(3) B by auto
  qed
  then show ?thesis by (simp add: upsample_def and_then_def)
qed

lemma sum_list_ones:
  "list_all (\<lambda>v. v = 0 \<or> v = 1) m \<Longrightarrow> sum_list m = real (length (filter (\<lambda>v. v = 1) m))"
  by (induction m) auto

lemma list_all_take: "list_all P xs \<Longrightarrow> list_all P (take n xs)"
  by (auto simp: list_all_iff dest: in_set_takeD)

lemma count_take_Suc:
  "length (filter P (take (Suc t) bs)) \<le> Suc (length (filter P (take t bs)))"
proof -
  have "take (Suc t) bs = take t bs @ take 1 (drop t bs)"
    using take_add[of t 1 bs] by simp
  moreover have "length (filter P (take 1 (drop t bs))) \<le> 1"
    using length_filter_le[of P "take 1 (drop t bs)"] by simp
  ultimately show ?thesis by simp
qed

lemma idx_overrun_cursor:
  assumes "list_all (\<lambda>v. v = 0 \<or> v = 1) bs" "real L' \<le> sum_list (take (Suc t) bs) - 1"
  shows "L' \<le> length (filter (\<lambda>v. v = 1) (take t bs))"
proof -
  have "sum_list (take (Suc t) bs) = real (length (filter (\<lambda>v. v = 1) (take (Suc t) bs)))"
    using sum_list_ones[OF list_all_take[OF assms(1)]] .
  then have "real L' + 1 \<le> real (length (filter (\<lambda>v. v = 1) (take (Suc t) bs)))"
    using assms(2) by simp
  then have "L' + 1 \<le> length (filter (\<lambda>v. v = 1) (take (Suc t) bs))" by linarith
  then show ?thesis using count_take_Suc[of "\<lambda>v. v = 1" t bs] by linarith
qed

lemma confidence_Inr:
  "shape2 B L b \<Longrightarrow> shape2 B L p \<Longrightarrow> confidence b p = Inr (map2 (map2 confidence_elem) b p)"
proof -
  assume a: "shape2 B L b" "shape2 B L p"
  have "map length b = replicate B L" "map length p = replicate B L"
    using a by (auto simp: shape2_def list_all_iff intro!: replicate_eqI)
  then show ?thesis by (simp add: confidence_def)
qed

lemma upsample_Inr_rows:
  assumes "shape3 B L' D bar_z" "shape2 B L b" "upsample bar_z b p L D = Inr z"
  shows "length z = B"
    and "i < B \<Longrightarrow> list_all (\<lambda>k. k < L') (cursor_from (b ! i) 0)"
    and "i < B \<Longrightarrow> z ! i = map (nth (bar_z ! i)) (cursor_from (b ! i) 0)"
proof -
  let ?f = "\<lambda>i. upsample_loop (bar_z ! i) b i L D 0 0"
  have B: "length bar_z = B" using assms(1) by (simp add: shape3_def)
  have fe: "for_each ?f [0..<length bar_z] = Inr z"
    using assms(3) by (auto simp: upsample_def and_then_def split: sum.splits)
  from for_each_InrD[OF fe] B
  have len: "length z = B" and rows: "\<And>j. j < B \<Longrightarrow> ?f j = Inr (z ! j)" by auto
  show "length z = B" by (rule len)
  { assume i: "i < B"
    have "?f i = Inr (z ! i)" using rows i by simp
    then have "list_all (\<lambda>k. k < L') (cursor_from (b ! i) 0)
        \<and> z ! i = map (nth (bar_z ! i)) (cursor_from (b ! i) 0)"
      using upsample_row_char[OF assms(1,2) i] by (auto split: if_splits) }
  then show "i < B \<Longrightarrow> list_all (\<lambda>k. k < L') (cursor_from (b ! i) 0)"
    and "i < B \<Longrightarrow> z ! i = map (nth (bar_z ! i)) (cursor_from (b ! i) 0)" by auto
qed

lemma upsample_shape:
  assumes "shape3 B L' D bar_z" "shape2 B L b" "upsample bar_z b p L D = Inr z"
  shows "shape3 B L D z"
proof -
  { fix i assume i: "i < B"
    have zi: "z ! i = map (nth (bar_z ! i)) (cursor_from (b ! i) 0)"
      and ok: "list_all (\<lambda>k. k < L') (cursor_from (b ! i) 0)"
      using upsample_Inr_rows[OF assms] i by auto
    have "length (z ! i) = L" using zi shape2_nth[OF assms(2) i] by simp
    moreover have "list_all (\<lambda>r. length r = D) (z ! i)"
      using zi ok shape3_nth[OF assms(1) i] by (auto simp: list_all_length)
    ultimately have "shape2 L D (z ! i)" by (simp add: shape2_def) }
  then show ?thesis using upsample_Inr_rows(1)[OF assms] by (simp add: shape3_def list_all_length)
qed

lemma cursor_from_all_ones: "cursor_from (replicate n 1) c = [c..<c + n]"
  by (induction n arbitrary: c) (auto simp: upt_rec)

lemma upsample_all_boundary:
  assumes "shape3 B L D bar_z" "shape2 B L p"
  shows "upsample bar_z (replicate B (replicate L 1)) p L D = Inr bar_z"
proof -
  let ?b = "replicate B (replicate L (1::real))"
  let ?f = "\<lambda>i. upsample_loop (bar_z ! i) ?b i L D 0 0"
  have b: "shape2 B L ?b" by (simp add: shape2_def list_all_length)
  have B: "length bar_z = B" using assms(1) by (simp add: shape3_def)
  have "for_each ?f [0..<length bar_z] = Inr (map (nth bar_z) [0..<length bar_z])"
  proof (rule for_each_Inr)
    fix i assume "i \<in> set [0..<length bar_z]"
    then have i: "i < B" using B by simp
    have "length (bar_z ! i) = L" using shape3_nth[OF assms(1) i] by simp
    then have "map (nth (bar_z ! i)) [0..<L] = bar_z ! i" using map_nth[of "bar_z ! i"] by simp
    then show "?f i = Inr (bar_z ! i)"
      using upsample_row_char[OF assms(1) b i] i
      by (simp add: cursor_from_all_ones list_all_length)
  qed
  then have "for_each ?f [0..<length bar_z] = Inr bar_z" by (simp add: map_nth)
  then show ?thesis using confidence_Inr[OF b assms(2)] by (simp add: upsample_def and_then_def)
qed

lemma confidence_elem_range:
  assumes "0 \<le> p_t" "p_t \<le> 1" "b_t = 0 \<or> b_t = 1" "(b_t = 1) = (1/2 \<le> p_t)"
  shows "1/2 \<le> confidence_elem b_t p_t \<and> confidence_elem b_t p_t \<le> 1"
  using assms by (auto simp: confidence_elem_def)

subsection \<open>Downsampler\<close>

lemma set_nonzero: "j \<in> set (nonzero m) \<Longrightarrow> j < length m"
  by (simp add: nonzero_def)

lemma length_nonzero: "length (nonzero m) = length (filter (\<lambda>v. v \<noteq> 0) m)"
proof -
  have "filter (\<lambda>v. v \<noteq> 0) (map (nth m) [0..<length m]) = map (nth m) (nonzero m)"
    by (simp add: nonzero_def filter_map comp_def)
  then show ?thesis by (metis length_map map_nth)
qed

lemma length_nonzero_le: "length (nonzero m) \<le> length m"
  by (simp add: length_nonzero)

lemma sum_list_binary:
  "list_all (\<lambda>v. v = 0 \<or> v = 1) m \<Longrightarrow> sum_list m = real (length (filter (\<lambda>v. v \<noteq> 0) m))"
  by (induction m) auto

lemma select_chunks_Inr:
  assumes "shape3 B L D x_hat" "shape2 B L b" "shape2 B L p" "i < B"
  shows "select_chunks x_hat b p i =
     Inr (map (nth (x_hat ! i)) (nonzero (b ! i)), map (nth (p ! i)) (nonzero (b ! i)))"
proof -
  have lx: "length (x_hat ! i) = L" using shape3_nth[OF assms(1,4)] by simp
  have lb: "length (b ! i) = L" and lp: "length (p ! i) = L"
    using shape2_nth assms by blast+
  have ib: "i < length b" and ip: "i < length p" using assms by (auto simp: shape2_def)
  have 1: "for_each (getitem 1 (x_hat ! i)) (nonzero (b ! i)) = Inr (map (nth (x_hat ! i)) (nonzero (b ! i)))"
    using set_nonzero[of _ "b ! i"] lx lb by (intro for_each_getitem) simp
  have 2: "for_each (getitem 1 (p ! i)) (nonzero (b ! i)) = Inr (map (nth (p ! i)) (nonzero (b ! i)))"
    using set_nonzero[of _ "b ! i"] lp lb by (intro for_each_getitem) simp
  show ?thesis using ib ip 1 2 by (simp add: select_chunks_def and_then_def getitem_def)
qed

lemma max_len_of_Max:
  assumes "ns \<noteq> []"
  shows "max_len_of ns = Inr (Max (set ns))"
proof (cases ns)
  case Nil then show ?thesis using assms by simp
next
  case (Cons n ns')
  have "Max (set (n # ns')) = fold max ns' n" by (rule Max.set_eq_fold)
  then show ?thesis using Cons by (simp add: max_len_of_def)
qed

lemma downsample_Inr:
  assumes "shape3 B L D x_hat" "shape2 B L b" "shape2 B L p" "0 < B"
  defines "M \<equiv> Max ((\<lambda>i. length (nonzero (b ! i))) ` {..<B})"
  shows "downsample x_hat b p =
     Inr (map (\<lambda>i. pad_rows (size2 x_hat) M (map (nth (x_hat ! i)) (nonzero (b ! i)))) [0..<B],
          map (\<lambda>i. pad_vals M (map (nth (p ! i)) (nonzero (b ! i)))) [0..<B])"
proof -
  let ?g = "\<lambda>i. (map (nth (x_hat ! i)) (nonzero (b ! i)), map (nth (p ! i)) (nonzero (b ! i)))"
  have B: "length x_hat = B" using assms(1) by (simp add: shape3_def)
  have fe: "for_each (select_chunks x_hat b p) [0..<length x_hat] = Inr (map ?g [0..<B])"
    unfolding B using select_chunks_Inr[OF assms(1,2,3)] by (intro for_each_Inr) simp
  have ne: "map (\<lambda>(x, P). length x) (map ?g [0..<B]) \<noteq> []" using assms(4) by simp
  have "set (map (\<lambda>(x, P). length x) (map ?g [0..<B])) = (\<lambda>i. length (nonzero (b ! i))) ` {..<B}"
    by (auto simp: image_iff)
  then have mx: "max_len_of (map (\<lambda>(x, P). length x) (map ?g [0..<B])) = Inr M"
    using max_len_of_Max[OF ne] by (simp add: M_def)
  show ?thesis
    unfolding downsample_def fe and_then_def using mx by (simp add: comp_def)
qed

lemma downsample_shape:
  assumes "shape3 B L D x_hat" "shape2 B L b" "shape2 B L p" "0 < B" "0 < L"
    and "\<And>i. i < B \<Longrightarrow> b ! i ! 0 \<noteq> 0"
  shows "\<exists>x_next P_next M. downsample x_hat b p = Inr (x_next, P_next)
     \<and> 0 < M \<and> shape3 B M D x_next \<and> shape2 B M P_next"
proof -
  let ?n = "\<lambda>i. length (nonzero (b ! i))"
  define M where "M = Max (?n ` {..<B})"
  let ?x = "map (\<lambda>i. pad_rows (size2 x_hat) M (map (nth (x_hat ! i)) (nonzero (b ! i)))) [0..<B]"
  let ?P = "map (\<lambda>i. pad_vals M (map (nth (p ! i)) (nonzero (b ! i)))) [0..<B]"
  have ds: "downsample x_hat b p = Inr (?x, ?P)"
    using downsample_Inr[OF assms(1-4)] by (simp add: M_def)
  have fin: "finite (?n ` {..<B})" by simp
  have le: "\<And>i. i < B \<Longrightarrow> ?n i \<le> M" unfolding M_def using fin by (simp add: Max_ge)
  have lb: "\<And>i. i < B \<Longrightarrow> length (b ! i) = L" using shape2_nth[OF assms(2)] by simp
  have "0 \<in> set (nonzero (b ! 0))" using assms(6)[OF assms(4)] assms(4,5) lb[of 0] by (simp add: nonzero_def)
  then have "0 < ?n 0" by (cases "nonzero (b ! 0)") auto
  moreover have "?n 0 \<le> M" using le[OF assms(4)] .
  ultimately have M: "0 < M" by linarith
  have D: "size2 x_hat = D" using size2_shape3[OF assms(1,4,5)] by simp
  { fix i assume i: "i < B"
    have rows: "list_all (\<lambda>r. length r = D) (x_hat ! i)" and lx: "length (x_hat ! i) = L"
      using shape3_nth[OF assms(1) i] by auto
    have sel: "list_all (\<lambda>r. length r = D) (map (nth (x_hat ! i)) (nonzero (b ! i)))"
      using rows lx lb[OF i] set_nonzero[of _ "b ! i"] by (auto simp: list_all_iff)
    have "shape2 M D (?x ! i)"
      using i le[OF i] sel D by (auto simp: shape2_def pad_rows_def list_all_iff)
    moreover have "length (?P ! i) = M" using i le[OF i] by (simp add: pad_vals_def)
    ultimately have "shape2 M D (?x ! i) \<and> length (?P ! i) = M" by simp }
  note each = this
  have s3: "shape3 B M D ?x" using each by (simp add: shape3_def list_all_length)
  have s2: "shape2 B M ?P" using each by (simp add: shape2_def list_all_length)
  show ?thesis using ds M s3 s2 by blast
qed

subsection \<open>Smoother\<close>

lemma length_ema_step:
  "length (z_hat_b ! t) = D \<Longrightarrow> length prev = D \<Longrightarrow> length (ema_step P z_hat_b b t prev) = D"
  by (simp add: ema_step_def vadd_def smul_def)

lemma vadd_smul_zero: "length v = length w \<Longrightarrow> vadd (smul 0 v) (smul (1 - 0) w) = w"
  by (induction v w rule: list_induct2) (simp_all add: vadd_def smul_def)

lemma smoothing_loop_char:
  assumes "list_all (\<lambda>r. length r = D) z" "b < length P" "length (P ! b) = length z"
    "length prev = D"
  shows "\<exists>rest. smoothing_loop z P b t prev = Inr rest \<and> length rest = length z - t
     \<and> list_all (\<lambda>r. length r = D) rest
     \<and> (\<forall>j<length z - t. rest ! j = ema_step P z b (t + j) (if j = 0 then prev else rest ! (j - 1)))"
  using assms(4)
proof (induction "length z - t" arbitrary: t prev)
  case 0
  then show ?case by (simp add: smoothing_loop.simps)
next
  case (Suc n)
  then have t: "t < length z" by simp
  let ?cur = "ema_step P z b t prev"
  have lz: "length (z ! t) = D" using assms(1) t by (simp add: list_all_length)
  have lc: "length ?cur = D" using length_ema_step[OF lz Suc.prems] .
  obtain rest where r: "smoothing_loop z P b (Suc t) ?cur = Inr rest"
    and lr: "length rest = length z - Suc t"
    and rr: "list_all (\<lambda>r. length r = D) rest"
    and rj: "\<forall>j<length z - Suc t. rest ! j = ema_step P z b (Suc t + j) (if j = 0 then ?cur else rest ! (j - 1))"
  proof -
    have "n = length z - Suc t" using Suc.hyps(2) by simp
    from Suc.hyps(1)[OF this lc] show ?thesis using that by (auto simp del: ex_simps)
  qed
  have step: "smoothing_loop z P b t prev = Inr (?cur # rest)"
    using t assms(2,3) r
    by (subst smoothing_loop.simps) (simp add: and_then_def getitem2_def getitem_def ema_step_def)
  have "\<forall>j<length z - t. (?cur # rest) ! j = ema_step P z b (t + j) (if j = 0 then prev else (?cur # rest) ! (j - 1))"
  proof (intro allI impI)
    fix j assume j: "j < length z - t"
    show "(?cur # rest) ! j = ema_step P z b (t + j) (if j = 0 then prev else (?cur # rest) ! (j - 1))"
    proof (cases j)
      case 0 then show ?thesis by simp
    next
      case (Suc j')
      then have "j' < length z - Suc t" using j by simp
      then show ?thesis using rj Suc by (cases j') auto
    qed
  qed
  then show ?case using step lr rr lc t by auto
qed

subsection \<open>Router\<close>

lemma linear_vec_Inr:
  assumes "wf_Linear d lin" "length v = d"
  shows "\<exists>y. linear_vec lin v = Inr y \<and> length y = d"
  using assms by (auto simp: wf_Linear_def linear_vec_def shape2_def split: option.splits)

lemma linear_shape:
  assumes "wf_Linear d lin" "shape3 B L d x"
  shows "\<exists>y. linear lin x = Inr y \<and> shape3 B L d y"
proof -
  have "\<exists>ys. for_each (for_each (linear_vec lin)) x = Inr ys \<and> length ys = length x
      \<and> list_all (shape2 L d) ys"
  proof (rule for_each_Inr_ex)
    fix row assume "row \<in> set x"
    then have row: "shape2 L d row" using assms(2) by (simp add: shape3_def list_all_iff)
    have "\<exists>ys. for_each (linear_vec lin) row = Inr ys \<and> length ys = length row
       \<and> list_all (\<lambda>y. length y = d) ys"
    proof (rule for_each_Inr_ex)
      fix v assume "v \<in> set row"
      then have "length v = d" using row by (simp add: shape2_def list_all_iff)
      then show "\<exists>y. linear_vec lin v = Inr y \<and> length y = d"
        using linear_vec_Inr[OF assms(1)] by simp
    qed
    then show "\<exists>y. for_each (linear_vec lin) row = Inr y \<and> shape2 L d y"
      using row by (auto simp: shape2_def)
  qed
  then show ?thesis using assms(2) by (auto simp: linear_def shape3_def)
qed

lemma linear_lengths:
  assumes "linear lin x = Inr y"
  shows "length y = length x" and "i < length x \<Longrightarrow> length (y ! i) = length (x ! i)"
proof -
  have fe: "for_each (for_each (linear_vec lin)) x = Inr y" using assms by (simp add: linear_def)
  show "length y = length x" using for_each_InrD[OF fe] by simp
  assume "i < length x"
  then have "for_each (linear_vec lin) (x ! i) = Inr (y ! i)" using for_each_InrD[OF fe] by simp
  then show "length (y ! i) = length (x ! i)" using for_each_InrD by blast
qed

lemma force_first_Inr:
  "force_first row = Inr row' \<Longrightarrow> row \<noteq> [] \<and> row' = 1 # tl row"
  by (cases row) (auto simp: force_first_def)

lemma shift_k_nth:
  assumes "0 < t" "t < length ks"
  shows "shift_k ks ! t = ks ! (t - 1)"
proof -
  have "length (take 1 ks) = 1" using assms by simp
  then have "shift_k ks ! t = butlast ks ! (t - 1)"
    unfolding shift_k_def using assms(1) by (simp add: nth_append del: take_Suc_Cons)
  also have "\<dots> = ks ! (t - 1)" using assms by (intro nth_butlast) simp
  finally show ?thesis .
qed

lemma length_shift_k [simp]: "length (shift_k ks) = length ks"
  by (cases ks) (auto simp: shift_k_def)

lemma router_forward_InrD:
  assumes "router_forward r x_hat = Inr (p, b)"
  obtains q k where "linear (W_q r) x_hat = Inr q" "linear (W_k r) x_hat = Inr k"
    "for_each force_first (map2 (map2 boundary_prob) q (map shift_k k)) = Inr p"
    "b = map (map (\<lambda>p_t. if 1/2 \<le> p_t then 1 else 0)) p"
  using assms by (auto simp: router_forward_def and_then_def split: sum.splits)

lemma router_forward_rows:
  assumes "router_forward r x_hat = Inr (p, b)" "linear (W_q r) x_hat = Inr q"
    "linear (W_k r) x_hat = Inr k"
  shows "length p = length x_hat" "length b = length x_hat"
    and "i < length x_hat \<Longrightarrow> length (x_hat ! i) \<noteq> 0 \<and> length (p ! i) = length (x_hat ! i)
          \<and> length (b ! i) = length (x_hat ! i) \<and> p ! i ! 0 = 1
          \<and> b ! i = map (\<lambda>p_t. if 1/2 \<le> p_t then 1 else 0) (p ! i)
          \<and> (\<forall>t. 0 < t \<and> t < length (x_hat ! i)
                \<longrightarrow> p ! i ! t = boundary_prob (q ! i ! t) (k ! i ! (t - 1)))"
proof -
  let ?ps = "map2 (map2 boundary_prob) q (map shift_k k)"
  have fe: "for_each force_first ?ps = Inr p"
    and b: "b = map (map (\<lambda>p_t. if 1/2 \<le> p_t then 1 else 0)) p"
    using router_forward_InrD[OF assms(1)] assms(2,3) by auto
  have lq: "length q = length x_hat" and lk: "length k = length x_hat"
    using linear_lengths(1) assms(2,3) by auto
  have lps: "length ?ps = length x_hat" using lq lk by simp
  show lp: "length p = length x_hat" using for_each_InrD[OF fe] lps by simp
  then show "length b = length x_hat" using b by simp
  assume i: "i < length x_hat"
  have lqi: "length (q ! i) = length (x_hat ! i)" and lki: "length (k ! i) = length (x_hat ! i)"
    using linear_lengths(2) assms(2,3) i by auto
  have psi: "?ps ! i = map2 boundary_prob (q ! i) (shift_k (k ! i))" using i lq lk by simp
  have "force_first (?ps ! i) = Inr (p ! i)" using for_each_InrD[OF fe] i lps lq lk by simp
  then have ne: "?ps ! i \<noteq> []" and pi: "p ! i = 1 # tl (?ps ! i)"
    using force_first_Inr by blast+
  have len: "length (?ps ! i) = length (x_hat ! i)" unfolding psi using lqi lki by simp
  have pt: "p ! i ! t = boundary_prob (q ! i ! t) (k ! i ! (t - 1))"
    if t: "0 < t" "t < length (x_hat ! i)" for t
  proof -
    have "p ! i ! t = ?ps ! i ! t" using pi t ne by (cases "?ps ! i"; cases t) auto
    also have "\<dots> = boundary_prob (q ! i ! t) (shift_k (k ! i) ! t)"
      unfolding psi using t lqi lki by simp
    finally show ?thesis using shift_k_nth[of t "k ! i"] t lki by simp
  qed
  have "length (p ! i) = length (x_hat ! i)" using pi len ne by (cases "?ps ! i") auto
  moreover have "length (x_hat ! i) \<noteq> 0" using len ne by auto
  moreover have "b ! i = map (\<lambda>p_t. if 1/2 \<le> p_t then 1 else 0) (p ! i)" using b i lp by simp
  ultimately show "length (x_hat ! i) \<noteq> 0 \<and> length (p ! i) = length (x_hat ! i)
          \<and> length (b ! i) = length (x_hat ! i) \<and> p ! i ! 0 = 1
          \<and> b ! i = map (\<lambda>p_t. if 1/2 \<le> p_t then 1 else 0) (p ! i)
          \<and> (\<forall>t. 0 < t \<and> t < length (x_hat ! i)
                \<longrightarrow> p ! i ! t = boundary_prob (q ! i ! t) (k ! i ! (t - 1)))"
    using pi pt by simp
qed

lemma router_forward_total:
  assumes "wf_Linear d (W_q r)" "wf_Linear d (W_k r)" "shape3 B L d x_hat" "0 < L"
  shows "\<exists>p b. router_forward r x_hat = Inr (p, b)"
proof -
  obtain q where q: "linear (W_q r) x_hat = Inr q" "shape3 B L d q"
    using linear_shape[OF assms(1,3)] by blast
  obtain k where k: "linear (W_k r) x_hat = Inr k" "shape3 B L d k"
    using linear_shape[OF assms(2,3)] by blast
  let ?ps = "map2 (map2 boundary_prob) q (map shift_k k)"
  have "\<exists>p. for_each force_first ?ps = Inr p"
  proof (rule for_each_total)
    fix row assume "row \<in> set ?ps"
    then obtain i where i: "i < length ?ps" and row: "row = ?ps ! i" by (auto simp: in_set_conv_nth)
    have iB: "i < B" using i q(2) k(2) by (simp add: shape3_def)
    have "length (q ! i) = L" "length (k ! i) = L"
      using shape3_nth[OF q(2) iB] shape3_nth[OF k(2) iB] by auto
    then have "length row = L" using row i by simp
    then show "\<exists>y. force_first row = Inr y" using assms(4) by (cases row) (auto simp: force_first_def)
  qed
  then show ?thesis using q(1) k(1) by (auto simp: router_forward_def and_then_def)
qed

lemma router_forward_shape:
  assumes "wf_Linear d (W_q r)" "wf_Linear d (W_k r)" "shape3 B L d x_hat" "0 < L"
  shows "\<exists>p b. router_forward r x_hat = Inr (p, b) \<and> shape2 B L p \<and> shape2 B L b
     \<and> (\<forall>i<B. b ! i ! 0 = 1)"
proof -
  obtain p b where pb: "router_forward r x_hat = Inr (p, b)"
    using router_forward_total[OF assms] by blast
  obtain q k where q: "linear (W_q r) x_hat = Inr q" and k: "linear (W_k r) x_hat = Inr k"
    using router_forward_InrD[OF pb] by blast
  note rows = router_forward_rows[OF pb q k]
  have B: "length x_hat = B" using assms(3) by (simp add: shape3_def)
  { fix i assume i: "i < B"
    then have ix: "i < length x_hat" using B by simp
    have lx: "length (x_hat ! i) = L" using shape3_nth[OF assms(3) i] by simp
    note r = rows(3)[OF ix]
    have bi: "b ! i = map (\<lambda>p_t. if 1/2 \<le> p_t then 1 else 0) (p ! i)" using r by blast
    have lp: "length (p ! i) = L" and p0: "p ! i ! 0 = 1" using r lx by auto
    have "b ! i ! 0 = 1" using bi lp assms(4) p0 by simp
    moreover have "length (b ! i) = L" using r lx by auto
    ultimately have "length (p ! i) = L \<and> length (b ! i) = L \<and> b ! i ! 0 = 1" using lp by simp }
  then have "shape2 B L p \<and> shape2 B L b \<and> (\<forall>i<B. b ! i ! 0 = 1)"
    using rows(1,2) B by (simp add: shape2_def list_all_length)
  then show ?thesis using pb by blast
qed

lemma sumsq_nonneg: "0 \<le> sum_list (map (\<lambda>x::real. x * x) v)"
  by (induction v) auto

lemma norm_vec_nonneg: "0 \<le> norm_vec v"
  by (simp add: norm_vec_def sumsq_nonneg)

lemma eps_pos: "0 < eps"
  by (simp add: eps_def)

lemma denominator_pos: "0 < (norm_vec q + eps) * (norm_vec k + eps)"
  using norm_vec_nonneg[of q] norm_vec_nonneg[of k] eps_pos by (intro mult_pos_pos) auto

lemma norm_vec_single: "norm_vec [a] = \<bar>a\<bar>"
  by (simp add: norm_vec_def)

subsection \<open>The network\<close>

lemma compress_total:
  assumes "wf_HNet d h" "0 < B"
  shows "shape3 B L d (last xs) \<Longrightarrow> 0 < L \<Longrightarrow>
     \<exists>xs' ps' L'. compress h n xs ps = Inr (xs', ps') \<and> 0 < L' \<and> shape3 B L' d (last xs')"
proof (induction n arbitrary: xs ps L)
  case 0
  then show ?case by auto
next
  case (Suc n)
  have enc: "wf_Linear d (encoder h)" and wq: "wf_Linear d (W_q (router h))"
    and wk: "wf_Linear d (W_k (router h))" using assms(1) by (auto simp: wf_HNet_def)
  obtain x_hat where xh: "linear (encoder h) (last xs) = Inr x_hat" "shape3 B L d x_hat"
    using linear_shape[OF enc Suc.prems(1)] by blast
  obtain p b where pb: "router_forward (router h) x_hat = Inr (p, b)" "shape2 B L p"
    "shape2 B L b" "\<forall>i<B. b ! i ! 0 = 1"
    using router_forward_shape[OF wq wk xh(2) Suc.prems(2)] by blast
  have nz: "\<And>i. i < B \<Longrightarrow> b ! i ! 0 \<noteq> 0" using pb(4) by simp
  obtain x_next P_next M where ds: "downsample x_hat b p = Inr (x_next, P_next)" "0 < M"
    "shape3 B M d x_next"
    using downsample_shape[OF xh(2) pb(3,2) assms(2) Suc.prems(2) nz] by blast
  have "shape3 B M d (last (xs @ [x_next]))" using ds(3) by simp
  from Suc.IH[OF this ds(2), of "ps @ [(p, b, P_next)]"]
  show ?case using xh(1) pb(1) ds(1) by (simp add: and_then_def)
qed

lemma decompress_NameError:
  "0 < n \<Longrightarrow> decompress h (rev [0..<n]) xs ps zs = Inl (NameError ''ema_smooth'')"
  by (cases n) (simp_all add: ema_smooth_def and_then_def)

lemma forward_NameError:
  assumes "wf_HNet d h" "0 < num_stages h" "shape3 B L d x0" "0 < B" "0 < L"
  shows "forward h x0 = Inl (NameError ''ema_smooth'')"
proof -
  have "shape3 B L d (last [x0])" using assms(3) by simp
  from compress_total[OF assms(1,4) this assms(5), of "num_stages h" "[]"]
  obtain xs ps L' where c: "compress h (num_stages h) [x0] [] = Inr (xs, ps)"
    and s: "shape3 B L' d (last xs)" by blast
  have "wf_Linear d (main h)" using assms(1) by (simp add: wf_HNet_def)
  from linear_shape[OF this s] obtain z where z: "linear (main h) (last xs) = Inr z" by blast
  show ?thesis
    using c z decompress_NameError[OF assms(2)] by (simp add: forward_def and_then_def)
qed

lemma forward_never_returns:
  assumes "0 < num_stages h"
  shows "forward h x0 \<noteq> Inr z"
  using decompress_NameError[OF assms]
  by (auto simp: forward_def and_then_def split: sum.splits)

lemma shape3_empty_sequence: "shape3 B 0 d x \<Longrightarrow> x = replicate B []"
  by (auto simp: shape3_def shape2_def list_all_iff intro!: replicate_eqI)

lemma linear_empty_sequence: "linear lin (replicate B []) = Inr (replicate B [])"
  unfolding linear_def by (induction B) simp_all

lemma force_first_empty_rows:
  "0 < B \<Longrightarrow> for_each force_first (replicate B []) = Inl (IndexError 0 1 0)"
  by (cases B) (simp_all add: force_first_def)

lemma router_forward_empty_sequence:
  assumes "0 < B"
  shows "router_forward r (replicate B []) = Inl (IndexError 0 1 0)"
proof -
  have "map2 (map2 boundary_prob) (replicate B []) (map shift_k (replicate B [])) = replicate B []"
    by (simp add: shift_k_def zip_replicate)
  then show ?thesis
    using force_first_empty_rows[OF assms]
    by (simp add: router_forward_def linear_empty_sequence and_then_def)
qed

lemma forward_empty_sequence:
  assumes "0 < num_stages h" "shape3 B 0 d x" "0 < B"
  shows "forward h x = Inl (IndexError 0 1 0)"
proof -
  obtain n where n: "num_stages h = Suc n" using assms(1) by (cases "num_stages h") auto
  have x: "x = replicate B []" using shape3_empty_sequence[OF assms(2)] .
  have "compress h (Suc n) [x] [] = Inl (IndexError 0 1 0)"
    unfolding x
    by (simp add: linear_empty_sequence router_forward_empty_sequence[OF assms(3)] and_then_def)
  then show ?thesis by (simp add: forward_def n and_then_def)
qed

lemma forward_hnet_1:
  "forward hnet_1 [[[10], [11], [20], [21]]] = Inl (NameError ''ema_smooth'')"
  by (rule forward_NameError[of 1 _ 1 4])
     (simp_all add: hnet_1_def router_1_def wf_HNet_def wf_Linear_def shape2_def shape3_def)

section \<open>The claims about the upsampler\<close>

text \<open>
  C1. The claim: the raw expansion of the upsampler is \<open>z_t = Z_idx(t)\<close> with
  \<open>idx(t)\<close> the prefix sum of \<open>b\<close> over the positions \<open>0..t\<close> minus one; for
  \<open>b = [1,0,1,0]\<close> there are two chunks, positions 0 and 1 belong to chunk 0, positions
  2 and 3 to chunk 1, and the output has length 4.

  The loop of \<open>upsample\<close> moves its cursor after reading, so position \<open>t\<close> reads the
  chunk numbered by the count of boundaries before \<open>t\<close>, one more than \<open>idx(t)\<close> at
  every position after the first that is not itself a boundary. On the scenario, with the
  two chunks \<open>[10]\<close> and \<open>[20]\<close>, position 3 reads chunk 2 of 2 and the call ends in
  an index fault; given a third row, position 1 is filled from chunk 1 and position 3 from
  chunk 2.
\<close>

theorem upsample_scenario_A:
  "upsample [[[10], [20]]] [[1, 0, 1, 0]] [[1, 1/5, 7/10, 3/10]] 4 1 = Inl (IndexError 2 1 2)
   \<and> upsample [[[10], [20], [30]]] [[1, 0, 1, 0]] [[1, 1/5, 7/10, 3/10]] 4 1
       = Inr [[[10], [20], [20], [30]]]"
  by (simp add: upsample_def upsample_loop.simps and_then_def getitem_def getitem2_def
      assign_row_def confidence_def confidence_elem_def)

text \<open>
  C2. The claim: whenever some position has \<open>idx(t) \<ge> ValidLength\<close>, the upsampler
  fails with a checked, descriptive fault that names stage, batch index and position,
  never with a raw out-of-range indexing fault.

  \<open>upsample\<close> has no check of its own: with one chunk and \<open>b = [1,1]\<close>, where
  \<open>idx(1) = 1\<close> is the valid length, the read \<open>bar_z[0, 1]\<close> raises the indexing
  fault of the tensor library.
\<close>

theorem upsample_overrun_counterexample:
  "real (length ([[[5]]] ! 0 :: vec list)) \<le> sum_list (take (Suc 1) ([[1, 1]] ! 0)) - 1
   \<and> upsample [[[5]]] [[1, 1]] [[1, 1]] 2 1 = Inl (IndexError 1 1 1)"
  by (simp add: upsample_def upsample_loop.simps and_then_def getitem_def getitem2_def
      assign_row_def)

text \<open>
  C2, as the code has it: whenever some position \<open>t\<close> of some batch element has
  \<open>idx(t)\<close>, the prefix sum of its 0/1 indicators over \<open>0..t\<close> minus one, at or
  beyond the compressed length \<open>L'\<close> of \<open>bar_z\<close>, \<open>upsample\<close> ends in the raw
  \<open>IndexError\<close> of the read \<open>bar_z[i, L']\<close>: index \<open>L'\<close> out of bounds for
  dimension 1 of size \<open>L'\<close>.
\<close>

theorem upsample_overrun_raw_IndexError:
  assumes "shape3 B L' D bar_z" "shape2 B L b" "i < B" "t < L"
    and "list_all (\<lambda>v. v = 0 \<or> v = 1) (b ! i)"
    and "real L' \<le> sum_list (take (Suc t) (b ! i)) - 1"
  shows "upsample bar_z b p L D = Inl (IndexError L' 1 L')"
proof -
  have "L' \<le> length (filter (\<lambda>v. v = 1) (take t (b ! i)))"
    using idx_overrun_cursor[OF assms(5,6)] .
  then show ?thesis using upsample_cursor_overrun[OF assms(1-4)] by simp
qed

theorem upsample_overrun_raw_IndexError_witness:
  "shape3 1 2 1 [[[5], [6]]] \<and> shape2 1 3 [[1, 1, 1 :: real]] \<and> (0::nat) < 1 \<and> (2::nat) < 3
   \<and> list_all (\<lambda>v. v = 0 \<or> v = 1) ([[1, 1, 1 :: real]] ! 0)
   \<and> real 2 \<le> sum_list (take (Suc 2) ([[1, 1, 1]] ! 0)) - 1
   \<and> upsample [[[5], [6]]] [[1, 1, 1]] [[1, 1, 1]] 3 1 = Inl (IndexError 2 1 2)"
  using upsample_overrun_raw_IndexError
    [of 1 2 1 "[[[5], [6]]]" 3 "[[1, 1, 1]]" 0 2 "[[1, 1, 1]]"]
  by (simp add: shape3_def shape2_def)

text \<open>
  C4. The claim: the forward output of the upsampler at position \<open>t\<close> is
  \<open>c_t \<cdot> z_t\<close>, with \<open>c_t = p_t\<close> at a boundary and \<open>1 - p_t\<close> elsewhere; on an
  all-boundary sequence the upsampler is the elementwise confidence scaling of the latent.

  \<open>upsample\<close> computes \<open>c\<close> and returns \<open>z\<close>: with \<open>b = [1,1]\<close> and
  \<open>p = [1, 3/4]\<close> position 1 of the output is the latent \<open>[1]\<close>, not \<open>[3/4]\<close>.
\<close>

theorem upsample_not_scaled_counterexample:
  "upsample [[[1], [1]]] [[1, 1]] [[1, 3/4]] 2 1 = Inr [[[1], [1]]]
   \<and> confidence [[1, 1]] [[1, 3/4]] = Inr [[1, 3/4]]
   \<and> smul ([[1, 3/4]] ! 0 ! 1) ([[[1], [1]]] ! 0 ! 1) \<noteq> [[[1], [1]]] ! 0 ! 1"
  by (simp add: upsample_def upsample_loop.simps and_then_def getitem_def getitem2_def
      assign_row_def confidence_def confidence_elem_def smul_def)

text \<open>
  C4, as the code has it: when \<open>upsample\<close> returns, its output has the shape
  \<open>(B, L, D)\<close> and the row at every position is a row of \<open>bar_z\<close> of the same batch
  element, copied without scaling; on an all-boundary sequence whose compressed length is
  \<open>L\<close>, \<open>upsample\<close> returns the latent unchanged.
\<close>

theorem upsample_output_is_unscaled_expansion:
  "(shape3 B L' D bar_z \<and> shape2 B L b \<and> upsample bar_z b p L D = Inr z \<longrightarrow>
      shape3 B L D z \<and> (\<forall>i<B. \<forall>t<L. \<exists>k<L'. z ! i ! t = bar_z ! i ! k))
   \<and> (shape3 B L D x \<and> shape2 B L q \<longrightarrow>
      upsample x (replicate B (replicate L 1)) q L D = Inr x)"
proof (intro conjI impI allI)
  assume a: "shape3 B L' D bar_z \<and> shape2 B L b \<and> upsample bar_z b p L D = Inr z"
  then show "shape3 B L D z" using upsample_shape by blast
  fix i t assume i: "i < B" and t: "t < L"
  from a have a1: "shape3 B L' D bar_z" and a2: "shape2 B L b"
    and a3: "upsample bar_z b p L D = Inr z" by auto
  have zi: "z ! i = map (nth (bar_z ! i)) (cursor_from (b ! i) 0)"
    and ok: "list_all (\<lambda>k. k < L') (cursor_from (b ! i) 0)"
    using upsample_Inr_rows(2,3)[OF a1 a2 a3 i] by auto
  have len: "length (b ! i) = L" using a i shape2_nth by blast
  have "cursor_from (b ! i) 0 ! t < L'" using ok t len by (simp add: list_all_length)
  moreover have "z ! i ! t = bar_z ! i ! (cursor_from (b ! i) 0 ! t)" using zi t len by simp
  ultimately show "\<exists>k<L'. z ! i ! t = bar_z ! i ! k" by blast
next
  assume "shape3 B L D x \<and> shape2 B L q"
  then show "upsample x (replicate B (replicate L 1)) q L D = Inr x"
    using upsample_all_boundary by blast
qed


theorem upsample_output_is_unscaled_expansion_witness:
  "shape3 1 2 1 [[[1], [2]]] \<and> shape2 1 2 [[1, 1 :: real]] \<and> shape2 1 2 [[1, 3/4 :: real]]
   \<and> upsample [[[1], [2]]] (replicate 1 (replicate 2 1)) [[1, 3/4]] 2 1 = Inr [[[1], [2]]]
   \<and> shape3 1 2 1 [[[1 :: real], [2]]]"
  using upsample_output_is_unscaled_expansion
    [of 1 2 1 "[[[1], [2]]]" 2 "replicate 1 (replicate 2 1)" "[[1, 3/4]]" "[[[1], [2]]]"
        "[[[1], [2]]]" "[[1, 3/4]]"]
  by (simp add: shape3_def shape2_def)

text \<open>
  C9. Whenever \<open>p_t\<close> lies in \<open>[0, 1]\<close> and the binary indicator \<open>b_t\<close> is
  threshold-consistent with it (\<open>b_t = 1\<close> exactly when \<open>p_t \<ge> 0.5\<close>), the
  confidence \<open>c_t\<close> that \<open>upsample\<close> computes lies in \<open>[0.5, 1]\<close>.
\<close>

theorem confidence_in_half_one:
  assumes "confidence b p = Inr c" "i < length b" "t < length (b ! i)"
    and "0 \<le> p ! i ! t" "p ! i ! t \<le> 1"
    and "b ! i ! t = 0 \<or> b ! i ! t = 1" "(b ! i ! t = 1) = (1/2 \<le> p ! i ! t)"
  shows "1/2 \<le> c ! i ! t \<and> c ! i ! t \<le> 1"
proof -
  have sh: "map length b = map length p" and c: "c = map2 (map2 confidence_elem) b p"
    using assms(1) by (auto simp: confidence_def split: if_splits)
  have lb: "length b = length p" using sh by (metis length_map)
  have "length (b ! i) = length (p ! i)" using sh assms(2) lb by (metis nth_map)
  then have "c ! i ! t = confidence_elem (b ! i ! t) (p ! i ! t)"
    using c assms(2,3) lb by simp
  then show ?thesis using confidence_elem_range[OF assms(4,5,6,7)] by simp
qed

theorem confidence_in_half_one_witness:
  "confidence [[1, 0]] [[1, 1/5]] = Inr [[1, 4/5]] \<and> (0::nat) < length [[1::real, 0]]
   \<and> (1::nat) < length ([[1::real, 0]] ! 0)
   \<and> (0::real) \<le> [[1, 1/5]] ! 0 ! 1 \<and> [[1, 1/5]] ! 0 ! 1 \<le> (1::real)
   \<and> ([[1::real, 0]] ! 0 ! 1 = 0 \<or> [[1::real, 0]] ! 0 ! 1 = 1)
   \<and> (([[1::real, 0]] ! 0 ! 1 = 1) = (1/2 \<le> [[1::real, 1/5]] ! 0 ! 1))
   \<and> 1/2 \<le> [[1::real, 4/5]] ! 0 ! 1 \<and> [[1::real, 4/5]] ! 0 ! 1 \<le> 1"
  using confidence_in_half_one[of "[[1, 0]]" "[[1, 1/5]]" "[[1, 4/5]]" 0 1]
  by (simp add: confidence_def confidence_elem_def)

section \<open>The claims about the downsampler and the smoother\<close>

text \<open>
  C3. The claim: the downsampler returns, besides the padded features and the padded
  probabilities, a ValidLength vector whose entry \<open>i\<close> is the sum of \<open>b[i, t]\<close>
  over \<open>t\<close>.

  \<open>downsample\<close> returns the two padded tensors only, and they do not determine the
  chunk counts: the two boundary patterns below, with two chunks and with one chunk in
  batch element 1, give the same result.
\<close>

theorem downsample_drops_valid_length_counterexample:
  "downsample [[[0], [0]], [[0], [0]]] [[1, 1], [1, 1]] [[1, 0], [1, 0]]
     = Inr ([[[0], [0]], [[0], [0]]], [[1, 0], [1, 0]])
   \<and> downsample [[[0], [0]], [[0], [0]]] [[1, 1], [1, 0]] [[1, 0], [1, 0]]
     = Inr ([[[0], [0]], [[0], [0]]], [[1, 0], [1, 0]])
   \<and> sum_list ([[1, 1], [1, 1]] ! 1) = (2::real) \<and> sum_list ([[1, 1], [1, 0]] ! 1) = (1::real)"
  by (simp add: downsample_def select_chunks_def and_then_def getitem_def nonzero_def
      max_len_of_def pad_rows_def pad_vals_def size2_def size1_def)

text \<open>
  C3, as the code has it: on a non-empty batch \<open>downsample\<close> returns the pair of the
  compressed features and the compressed probabilities and nothing else. Both are padded
  to the largest chunk count \<open>M\<close> of the batch; for batch element \<open>i\<close> the first
  \<open>n\<close> rows are the rows at the positions whose indicator is not zero, in order, and
  the other \<open>M - n\<close> rows are zero, where \<open>n\<close> is the number of those positions, the
  sum of \<open>b[i, t]\<close> over \<open>t\<close> when the indicators are 0 or 1.
\<close>

theorem downsample_returns_padded_pair:
  assumes "shape3 B L D x_hat" "shape2 B L b" "shape2 B L p" "0 < B"
  shows "\<exists>x_next P_next M. downsample x_hat b p = Inr (x_next, P_next)
     \<and> shape3 B M D x_next \<and> shape2 B M P_next
     \<and> (\<exists>i<B. M = length (nonzero (b ! i)))
     \<and> (\<forall>i<B. length (nonzero (b ! i)) \<le> M
          \<and> take (length (nonzero (b ! i))) (x_next ! i) = map (nth (x_hat ! i)) (nonzero (b ! i))
          \<and> drop (length (nonzero (b ! i))) (x_next ! i)
              = replicate (M - length (nonzero (b ! i))) (replicate D 0)
          \<and> take (length (nonzero (b ! i))) (P_next ! i) = map (nth (p ! i)) (nonzero (b ! i))
          \<and> drop (length (nonzero (b ! i))) (P_next ! i)
              = replicate (M - length (nonzero (b ! i))) 0
          \<and> (list_all (\<lambda>v. v = 0 \<or> v = 1) (b ! i)
               \<longrightarrow> real (length (nonzero (b ! i))) = sum_list (b ! i)))"
proof -
  let ?n = "\<lambda>i. length (nonzero (b ! i))"
  define M where "M = Max (?n ` {..<B})"
  let ?x = "map (\<lambda>i. pad_rows (size2 x_hat) M (map (nth (x_hat ! i)) (nonzero (b ! i)))) [0..<B]"
  let ?P = "map (\<lambda>i. pad_vals M (map (nth (p ! i)) (nonzero (b ! i)))) [0..<B]"
  have ds: "downsample x_hat b p = Inr (?x, ?P)"
    using downsample_Inr[OF assms] by (simp add: M_def)
  have fin: "finite (?n ` {..<B})" and ne: "?n ` {..<B} \<noteq> {}" using assms(4) by auto
  have "M \<in> ?n ` {..<B}" unfolding M_def using Max_in[OF fin ne] .
  then have ex: "\<exists>i<B. M = ?n i" by auto
  have le: "\<And>i. i < B \<Longrightarrow> ?n i \<le> M" unfolding M_def using fin by (simp add: Max_ge)
  have lb: "\<And>i. i < B \<Longrightarrow> length (b ! i) = L" using shape2_nth[OF assms(2)] by simp
  have M_le: "M \<le> L" using ex lb length_nonzero_le by metis
  have D: "0 < M \<Longrightarrow> size2 x_hat = D"
    using size2_shape3[OF assms(1,4)] M_le by simp
  { fix i assume i: "i < B"
    have rows: "list_all (\<lambda>r. length r = D) (x_hat ! i)" and lx: "length (x_hat ! i) = L"
      using shape3_nth[OF assms(1) i] by auto
    have sel: "list_all (\<lambda>r. length r = D) (map (nth (x_hat ! i)) (nonzero (b ! i)))"
      using rows lx lb[OF i] set_nonzero[of _ "b ! i"] by (auto simp: list_all_iff)
    have pad: "0 < M - ?n i \<Longrightarrow> size2 x_hat = D" using D by simp
    have "shape2 M D (?x ! i)"
      using i le[OF i] sel pad by (cases "M - ?n i = 0") (auto simp: shape2_def pad_rows_def list_all_iff)
    moreover have "length (?P ! i) = M" using i le[OF i] by (simp add: pad_vals_def)
    moreover have "take (?n i) (?x ! i) = map (nth (x_hat ! i)) (nonzero (b ! i))"
      using i by (simp add: pad_rows_def)
    moreover have "drop (?n i) (?x ! i) = replicate (M - ?n i) (replicate D 0)"
      using i pad by (cases "M - ?n i = 0") (simp_all add: pad_rows_def)
    moreover have "take (?n i) (?P ! i) = map (nth (p ! i)) (nonzero (b ! i))"
      using i by (simp add: pad_vals_def)
    moreover have "drop (?n i) (?P ! i) = replicate (M - ?n i) 0"
      using i by (simp add: pad_vals_def)
    moreover have "list_all (\<lambda>v. v = 0 \<or> v = 1) (b ! i) \<longrightarrow> real (?n i) = sum_list (b ! i)"
      using sum_list_binary[of "b ! i"] by (simp add: length_nonzero)
    ultimately have "shape2 M D (?x ! i) \<and> length (?P ! i) = M \<and> ?n i \<le> M
      \<and> take (?n i) (?x ! i) = map (nth (x_hat ! i)) (nonzero (b ! i))
      \<and> drop (?n i) (?x ! i) = replicate (M - ?n i) (replicate D 0)
      \<and> take (?n i) (?P ! i) = map (nth (p ! i)) (nonzero (b ! i))
      \<and> drop (?n i) (?P ! i) = replicate (M - ?n i) 0
      \<and> (list_all (\<lambda>v. v = 0 \<or> v = 1) (b ! i) \<longrightarrow> real (?n i) = sum_list (b ! i))"
      using le[OF i] by blast }
  note each = this
  have s3: "shape3 B M D ?x" using each by (simp add: shape3_def list_all_length)
  have s2: "shape2 B M ?P" using each by (simp add: shape2_def list_all_length)
  show ?thesis
    apply (rule exI[of _ ?x], rule exI[of _ ?P], rule exI[of _ M])
    using ds s3 s2 ex each by blast
qed

theorem downsample_returns_padded_pair_witness:
  "shape3 2 2 1 [[[7], [8]], [[3], [4]]] \<and> shape2 2 2 [[1, 0], [1, 1 :: real]]
   \<and> shape2 2 2 [[1, 1/5], [1, 4/5 :: real]] \<and> (0::nat) < 2
   \<and> (\<exists>x_next P_next. downsample [[[7], [8]], [[3], [4]]] [[1, 0], [1, 1]] [[1, 1/5], [1, 4/5]]
         = Inr (x_next, P_next))"
  using downsample_returns_padded_pair
    [of 2 2 1 "[[[7], [8]], [[3], [4]]]" "[[1, 0], [1, 1]]" "[[1, 1/5], [1, 4/5]]"]
  by (simp add: shape3_def shape2_def) blast

text \<open>
  C5. The claim: the smoother runs its recurrence over the valid chunk indices
  \<open>1 .. ValidLength - 1\<close> of each batch element only, and neither reads nor writes the
  padding slots of an element with fewer chunks than the padded length.

  \<open>smoothing_module\<close> takes no valid length. After \<open>downsample\<close> has padded batch
  element 0 (one chunk) to the two chunks of element 1, the smoother writes the chunk
  \<open>[7]\<close> into the padding slot of element 0.
\<close>

theorem smoothing_module_fills_padding_counterexample:
  "downsample [[[7], [8]], [[3], [4]]] [[1, 0], [1, 1]] [[1, 1/5], [1, 4/5]]
     = Inr ([[[7], [0]], [[3], [4]]], [[1, 0], [1, 4/5]])
   \<and> sum_list ([[1, 0], [1, 1]] ! 0) = (1::real)
   \<and> smoothing_module [[[7], [0]], [[3], [4]]] [[1, 0], [1, 4/5]]
     = Inr [[[7], [7]], [[3], [19/5]]]"
  by (simp add: downsample_def select_chunks_def and_then_def getitem_def getitem2_def nonzero_def
      max_len_of_def pad_rows_def pad_vals_def size2_def size1_def
      smoothing_module_def smoothing_loop.simps vadd_def smul_def)

text \<open>
  C5, as the code has it: on a compressed length \<open>L' > 0\<close> the smoother sets
  \<open>bar_z[b, 0] = z_hat[b, 0]\<close> and runs the recurrence
  \<open>bar_z[b, t] = P[b, t] \<cdot> z_hat[b, t] + (1 - P[b, t]) \<cdot> bar_z[b, t-1]\<close> at every index
  \<open>t = 1 .. L' - 1\<close> of the padded length, for every batch element; where
  \<open>P[b, t] = 0\<close>, as in a padding slot, the slot takes the smoothed row before it.
\<close>

theorem smoothing_module_runs_over_padded_length:
  assumes "shape3 B L' D z_hat" "shape2 B L' P" "0 < L'"
  shows "\<exists>bar_z. smoothing_module z_hat P = Inr bar_z \<and> shape3 B L' D bar_z
     \<and> (\<forall>b<B. bar_z ! b ! 0 = z_hat ! b ! 0
          \<and> (\<forall>t. 0 < t \<and> t < L' \<longrightarrow>
                bar_z ! b ! t = vadd (smul (P ! b ! t) (z_hat ! b ! t))
                                     (smul (1 - P ! b ! t) (bar_z ! b ! (t - 1)))
                \<and> (P ! b ! t = 0 \<longrightarrow> bar_z ! b ! t = bar_z ! b ! (t - 1))))"
proof -
  let ?f = "\<lambda>b. and_then (getitem 1 (z_hat ! b) 0) (\<lambda>bar_z_b0.
       and_then (smoothing_loop (z_hat ! b) P b 1 bar_z_b0) (\<lambda>rest. Inr (bar_z_b0 # rest)))"
  let ?Q = "\<lambda>b row. ?f b = Inr row \<and> shape2 L' D row \<and> row ! 0 = z_hat ! b ! 0
     \<and> (\<forall>t. 0 < t \<and> t < L' \<longrightarrow>
           row ! t = vadd (smul (P ! b ! t) (z_hat ! b ! t)) (smul (1 - P ! b ! t) (row ! (t - 1)))
           \<and> (P ! b ! t = 0 \<longrightarrow> row ! t = row ! (t - 1)))"
  have B: "length z_hat = B" using assms(1) by (rule shape3_length)
  have each: "\<exists>row. ?Q b row" if b: "b < B" for b
  proof -
    have lz: "length (z_hat ! b) = L'" and rows: "list_all (\<lambda>r. length r = D) (z_hat ! b)"
      using shape3_nth[OF assms(1) b] by auto
    have bP: "b < length P" and lP: "length (P ! b) = length (z_hat ! b)"
      using assms(2) b lz by (auto simp: shape2_def list_all_length)
    have l0: "length (z_hat ! b ! 0) = D" using rows lz assms(3) by (simp add: list_all_length)
    obtain rest where r: "smoothing_loop (z_hat ! b) P b 1 (z_hat ! b ! 0) = Inr rest"
      and lr: "length rest = L' - 1" and rr: "list_all (\<lambda>r. length r = D) rest"
      and rj: "\<forall>j<L' - 1. rest ! j = ema_step P (z_hat ! b) b (1 + j)
                 (if j = 0 then z_hat ! b ! 0 else rest ! (j - 1))"
      using smoothing_loop_char[OF rows bP lP l0, of 1] lz by auto
    let ?row = "z_hat ! b ! 0 # rest"
    have f: "?f b = Inr ?row" using r lz assms(3) by (simp add: and_then_def getitem_def)
    have sh: "shape2 L' D ?row" using lr rr l0 assms(3) by (simp add: shape2_def)
    have rec: "?row ! t = vadd (smul (P ! b ! t) (z_hat ! b ! t)) (smul (1 - P ! b ! t) (?row ! (t - 1)))"
      if t: "0 < t" "t < L'" for t
    proof -
      obtain j where j: "t = Suc j" using t(1) by (cases t) auto
      then have "j < L' - 1" using t(2) by simp
      then have "rest ! j = ema_step P (z_hat ! b) b (1 + j) (if j = 0 then z_hat ! b ! 0 else rest ! (j - 1))"
        using rj by simp
      then show ?thesis using j by (cases j) (simp_all add: ema_step_def)
    qed
    have pad: "?row ! t = ?row ! (t - 1)" if t: "0 < t" "t < L'" and z: "P ! b ! t = 0" for t
    proof -
      have "length (z_hat ! b ! t) = D" using rows lz t by (simp add: list_all_length)
      moreover have "length (?row ! (t - 1)) = D"
        using sh t by (simp add: shape2_def list_all_length del: nth_Cons_Suc)
      ultimately show ?thesis using rec[OF t] z vadd_smul_zero[of "z_hat ! b ! t" "?row ! (t - 1)"]
        by simp
    qed
    show ?thesis using f sh rec pad by (intro exI[of _ ?row]) auto
  qed
  have "\<exists>ys. for_each ?f [0..<length z_hat] = Inr ys"
    unfolding B using each by (intro for_each_total) auto
  then obtain bar_z where sm: "smoothing_module z_hat P = Inr bar_z"
    by (auto simp: smoothing_module_def)
  then have fe: "for_each ?f [0..<B] = Inr bar_z" using B by (simp add: smoothing_module_def)
  have len: "length bar_z = B" using for_each_InrD[OF fe] by simp
  have Q: "?Q b (bar_z ! b)" if b: "b < B" for b
  proof -
    have fb: "?f b = Inr (bar_z ! b)" using for_each_InrD[OF fe] b by simp
    obtain row where r: "?Q b row" using each[OF b] by blast
    from r have "?f b = Inr row" by (rule conjunct1)
    with fb have eq: "row = bar_z ! b" by simp
    from r show ?thesis unfolding eq .
  qed
  have "shape3 B L' D bar_z" using Q len by (simp add: shape3_def list_all_length)
  then show ?thesis using sm Q by blast
qed

theorem smoothing_module_runs_over_padded_length_witness:
  "shape3 2 2 1 [[[7], [0]], [[3], [4]]] \<and> shape2 2 2 [[1, 0], [1, 4/5 :: real]] \<and> (0::nat) < 2
   \<and> (\<exists>bar_z. smoothing_module [[[7], [0]], [[3], [4]]] [[1, 0], [1, 4/5]] = Inr bar_z)"
  using smoothing_module_runs_over_padded_length
    [of 2 2 1 "[[[7], [0]], [[3], [4]]]" "[[1, 0], [1, 4/5]]"]
  by (simp add: shape3_def shape2_def) blast

section \<open>The claims about the router\<close>

text \<open>
  C7. For every input and every weight setting, the output of the router has
  \<open>p[i, 0] = 1\<close> and \<open>b[i, 0] = 1\<close> for every batch element \<open>i\<close>, and
  \<open>b[i, t] = 1\<close> exactly when \<open>p[i, t] \<ge> 0.5\<close>, at every position \<open>t\<close>.
  The router returns on every input of shape \<open>(B, L, d)\<close> with \<open>L > 0\<close> whose
  feature dimension is that of its two projections.
\<close>

theorem router_forces_first_boundary:
  "(wf_Linear d (W_q r) \<and> wf_Linear d (W_k r) \<and> shape3 B L d x \<and> 0 < L
      \<longrightarrow> (\<exists>p b. router_forward r x = Inr (p, b)))
   \<and> (router_forward r x_hat = Inr (p, b)
      \<longrightarrow> length p = length x_hat \<and> length b = length x_hat
        \<and> (\<forall>i<length x_hat. length (p ! i) = length (x_hat ! i)
              \<and> length (b ! i) = length (x_hat ! i)
              \<and> p ! i ! 0 = 1 \<and> b ! i ! 0 = 1
              \<and> (\<forall>t<length (x_hat ! i). (b ! i ! t = 1) = (1/2 \<le> p ! i ! t))))"
proof (intro conjI impI)
  assume "wf_Linear d (W_q r) \<and> wf_Linear d (W_k r) \<and> shape3 B L d x \<and> 0 < L"
  then show "\<exists>p b. router_forward r x = Inr (p, b)" using router_forward_total by blast
next
  assume a: "router_forward r x_hat = Inr (p, b)"
  obtain q k where q: "linear (W_q r) x_hat = Inr q" and k: "linear (W_k r) x_hat = Inr k"
    using router_forward_InrD[OF a] by blast
  note rows = router_forward_rows[OF a q k]
  show "length p = length x_hat" "length b = length x_hat" using rows(1,2) by auto
  show "\<forall>i<length x_hat. length (p ! i) = length (x_hat ! i)
              \<and> length (b ! i) = length (x_hat ! i)
              \<and> p ! i ! 0 = 1 \<and> b ! i ! 0 = 1
              \<and> (\<forall>t<length (x_hat ! i). (b ! i ! t = 1) = (1/2 \<le> p ! i ! t))"
  proof (intro allI impI)
    fix i assume i: "i < length x_hat"
    note r = rows(3)[OF i]
    have bi: "b ! i = map (\<lambda>p_t. if 1/2 \<le> p_t then 1 else 0) (p ! i)" using r by blast
    have lp: "length (p ! i) = length (x_hat ! i)" and ne: "length (x_hat ! i) \<noteq> 0"
      and p0: "p ! i ! 0 = 1" using r by blast+
    have "b ! i ! 0 = 1" using bi lp ne p0 by simp
    moreover have "\<forall>t<length (x_hat ! i). (b ! i ! t = 1) = (1/2 \<le> p ! i ! t)"
      using bi lp by simp
    ultimately show "length (p ! i) = length (x_hat ! i)
              \<and> length (b ! i) = length (x_hat ! i)
              \<and> p ! i ! 0 = 1 \<and> b ! i ! 0 = 1
              \<and> (\<forall>t<length (x_hat ! i). (b ! i ! t = 1) = (1/2 \<le> p ! i ! t))"
      using r by blast
  qed
qed

theorem router_forces_first_boundary_witness:
  "wf_Linear 1 (W_q router_1) \<and> wf_Linear 1 (W_k router_1) \<and> shape3 1 2 1 [[[0], [0 :: real]]]
   \<and> (0::nat) < 2
   \<and> router_forward router_1 [[[0], [0]]] = Inr ([[1, 1/2]], [[1, 1]])
   \<and> [[1, 1/2 :: real]] ! 0 ! 0 = 1 \<and> [[1, 1 :: real]] ! 0 ! 0 = 1
   \<and> (([[1, 1 :: real]] ! 0 ! 1 = 1) = (1/2 \<le> [[1, 1/2 :: real]] ! 0 ! 1))"
  using router_forces_first_boundary
    [of 1 router_1 1 2 "[[[0], [0]]]" "[[[0], [0]]]" "[[1, 1/2]]" "[[1, 1]]"]
  by (simp add: router_1_def router_forward_def linear_def linear_vec_def and_then_def shift_k_def
      boundary_prob_def dot_vec_def norm_vec_single eps_def force_first_def
      wf_Linear_def shape3_def shape2_def)

text \<open>
  C8. The claim: at every position \<open>t \<ge> 1\<close> the router computes
  \<open>p_t = 0.5 \<cdot> (1 - cos_t)\<close> with
  \<open>cos_t = dot(Q_t, K_shifted_t) / (\<parallel>Q_t\<parallel> \<cdot> \<parallel>K_shifted_t\<parallel> + \<epsilon>)\<close>, the constant
  \<open>\<epsilon> = 1e-8\<close> added to the product of the two norms, so that the division never
  faults and the result is bounded.

  The router adds \<open>1e-8\<close> to each norm and multiplies the two sums. With features of
  size \<open>1e-8\<close> the two formulas differ: the router returns \<open>p_1 = 3/8\<close>.
\<close>

theorem router_epsilon_counterexample:
  "router_forward router_1 [[[1/100000000], [1/100000000]]] = Inr ([[1, 3/8]], [[1, 0]])
   \<and> (3/8 :: real) \<noteq> 1/2 * (1 - dot_vec [1/100000000] [1/100000000]
         / (norm_vec [1/100000000] * norm_vec [1/100000000] + 1/100000000))"
  by (simp add: router_1_def router_forward_def linear_def linear_vec_def and_then_def shift_k_def
      boundary_prob_def dot_vec_def norm_vec_single eps_def force_first_def)

text \<open>
  C8, as the code has it: at every position \<open>t \<ge> 1\<close>,
  \<open>p_t = 0.5 \<cdot> (1 - dot(Q_t, K_(t-1)) / ((\<parallel>Q_t\<parallel> + \<epsilon>) \<cdot> (\<parallel>K_(t-1)\<parallel> + \<epsilon>)))\<close> with
  \<open>\<epsilon> = 1e-8\<close> added to each norm before the two are multiplied; the denominator is
  positive, whatever the norms, so the division never faults.
\<close>

theorem router_boundary_probability:
  assumes "router_forward r x_hat = Inr (p, b)"
    and "linear (W_q r) x_hat = Inr q" and "linear (W_k r) x_hat = Inr k"
    and "i < length x_hat" "0 < t" "t < length (x_hat ! i)"
  shows "p ! i ! t = 1/2 * (1 - dot_vec (q ! i ! t) (k ! i ! (t - 1))
            / ((norm_vec (q ! i ! t) + 1/100000000) * (norm_vec (k ! i ! (t - 1)) + 1/100000000)))
     \<and> 0 < (norm_vec (q ! i ! t) + 1/100000000) * (norm_vec (k ! i ! (t - 1)) + 1/100000000)"
proof -
  have "p ! i ! t = boundary_prob (q ! i ! t) (k ! i ! (t - 1))"
    using router_forward_rows(3)[OF assms(1,2,3,4)] assms(5,6) by blast
  then show ?thesis
    using denominator_pos[of "q ! i ! t" "k ! i ! (t - 1)"]
    by (simp add: boundary_prob_def Let_def eps_def)
qed

theorem router_boundary_probability_witness:
  "router_forward router_1 [[[0], [0]]] = Inr ([[1, 1/2]], [[1, 1]])
   \<and> linear (W_q router_1) [[[0], [0]]] = Inr [[[0], [0]]]
   \<and> linear (W_k router_1) [[[0], [0]]] = Inr [[[0], [0]]]
   \<and> (0::nat) < length [[[0 :: real], [0]]] \<and> (0::nat) < 1
   \<and> (1::nat) < length ([[[0 :: real], [0]]] ! 0)
   \<and> [[1, 1/2 :: real]] ! 0 ! 1 = 1/2 * (1 - dot_vec [0] [0]
         / ((norm_vec [0] + 1/100000000) * (norm_vec [0] + 1/100000000)))
   \<and> (0::real) < (norm_vec [0] + 1/100000000) * (norm_vec [0] + 1/100000000)"
  using router_boundary_probability
    [of router_1 "[[[0], [0]]]" "[[1, 1/2]]" "[[1, 1]]" "[[[0], [0]]]" "[[[0], [0]]]" 0 1]
  by (simp add: router_1_def router_forward_def linear_def linear_vec_def and_then_def shift_k_def
      boundary_prob_def dot_vec_def norm_vec_single eps_def force_first_def)

section \<open>The claims about the network\<close>

text \<open>
  C10. The claim: for every input and every \<open>num_stages \<ge> 1\<close>, \<open>forward\<close> fails at
  the smoothing step with an unresolved-name fault for \<open>ema_smooth\<close>, before the
  recurrence of the smoother, the upsampler or the skip connection can run.

  On an input with an empty sequence, of shape \<open>(1, 0, 1)\<close>, \<open>forward\<close> fails before
  it reaches the smoothing step: the router's assignment \<open>p[:, 0] = 1.0\<close> raises an
  index fault in the compression pass.
\<close>

theorem forward_empty_sequence_counterexample:
  "0 < num_stages hnet_1 \<and> forward hnet_1 [[]] = Inl (IndexError 0 1 0)"
  by (simp add: hnet_1_def router_1_def forward_def linear_def router_forward_def and_then_def
      force_first_def)

text \<open>
  C10, as the code has it: with \<open>num_stages \<ge> 1\<close>, \<open>forward\<close> returns on no input.
  On every input of shape \<open>(B, L, d)\<close> with \<open>B > 0\<close> and \<open>L > 0\<close>, where \<open>d\<close> is
  the feature dimension of the layers, the compression pass and the main network run
  through and \<open>forward\<close> fails at the first smoothing step with the
  \<open>NameError\<close> for \<open>ema_smooth\<close>. On every input of shape \<open>(B, 0, d)\<close> with
  \<open>B > 0\<close>, an empty sequence, \<open>forward\<close> fails in the first compression step, at
  the router's assignment \<open>p[:, 0] = 1.0\<close>, with an \<open>IndexError\<close>.
\<close>

theorem forward_fails_at_ema_smooth:
  "(0 < num_stages h \<longrightarrow> forward h x0 \<noteq> Inr z)
   \<and> (wf_HNet d h \<and> 0 < num_stages h \<and> shape3 B L d x \<and> 0 < B \<and> 0 < L
      \<longrightarrow> forward h x = Inl (NameError ''ema_smooth''))
   \<and> (wf_HNet d h \<and> 0 < num_stages h \<and> shape3 B' 0 d x' \<and> 0 < B'
      \<longrightarrow> forward h x' = Inl (IndexError 0 1 0))"
  using forward_never_returns forward_NameError forward_empty_sequence by blast

theorem forward_fails_at_ema_smooth_witness:
  "0 < num_stages hnet_1 \<and> wf_HNet 1 hnet_1 \<and> shape3 1 4 1 [[[10], [11], [20], [21 :: real]]]
   \<and> (0::nat) < 1 \<and> (0::nat) < 4
   \<and> forward hnet_1 [[[10], [11], [20], [21]]] = Inl (NameError ''ema_smooth'')
   \<and> shape3 2 0 1 [[], [] :: real list list] \<and> (0::nat) < 2
   \<and> forward hnet_1 [[], []] = Inl (IndexError 0 1 0)"
  using forward_fails_at_ema_smooth
    [of hnet_1 "[[[10], [11], [20], [21]]]" "[[[10], [11], [20], [21]]]" 1 1 4
        "[[[10], [11], [20], [21]]]" 2 "[[], []]"]
  by (simp add: hnet_1_def router_1_def wf_HNet_def wf_Linear_def shape2_def shape3_def)

text \<open>
  C6. The claim: for every stage input of shape \<open>(B, L, D)\<close> and every boundary
  pattern, upsampler after smoother after downsampler gives a tensor of the same shape,
  and the output of \<open>forward\<close> has the shape of its input.

  On the input of length 4 with \<open>b = [1,0,1,0]\<close> the downsampler and the smoother
  return two chunks and \<open>upsample\<close> ends in an index fault instead of a tensor of
  shape \<open>(1, 4, 1)\<close>; \<open>forward\<close> ends in the \<open>NameError\<close> for \<open>ema_smooth\<close>.
\<close>

theorem round_trip_scenario_A:
  "downsample [[[10], [11], [20], [21]]] [[1, 0, 1, 0]] [[1, 1/5, 7/10, 3/10]]
     = Inr ([[[10], [20]]], [[1, 7/10]])
   \<and> smoothing_module [[[10], [20]]] [[1, 7/10]] = Inr [[[10], [17]]]
   \<and> upsample [[[10], [17]]] [[1, 0, 1, 0]] [[1, 1/5, 7/10, 3/10]] 4 1
     = Inl (IndexError 2 1 2)
   \<and> forward hnet_1 [[[10], [11], [20], [21]]] = Inl (NameError ''ema_smooth'')"
  by (simp add: forward_hnet_1 downsample_def select_chunks_def and_then_def getitem_def
      getitem2_def nonzero_def max_len_of_def pad_rows_def pad_vals_def size2_def size1_def
      smoothing_module_def smoothing_loop.simps vadd_def smul_def
      upsample_def upsample_loop.simps assign_row_def)

end
